theory Spec2Isabelle
  imports Main "HOL-Library.Word"
begin

unbundle bit_operations_syntax

section \<open>Machine integers and big-endian fields\<close>

type_synonym byte = "8 word"
type_synonym uint16 = "16 word"
type_synonym uint32 = "32 word"

text \<open>
  \<^verbatim>\<open>binary.BigEndian.PutUint16(b, v)\<close> stores \<^verbatim>\<open>byte(v >> 8)\<close> and then \<^verbatim>\<open>byte(v)\<close>;
  \<^verbatim>\<open>binary.BigEndian.Uint16(b)\<close> is \<^verbatim>\<open>uint16(b[1]) | uint16(b[0])<<8\<close>.
\<close>

definition PutUint16 :: "uint16 \<Rightarrow> byte list" where
  "PutUint16 v = [ucast (drop_bit 8 v), ucast v]"

definition Uint16 :: "byte \<Rightarrow> byte \<Rightarrow> uint16" where
  "Uint16 b0 b1 = (ucast b1) OR (push_bit 8 (ucast b0))"

section \<open>Function codes\<close>

definition FuncCodeReadCoils :: byte where "FuncCodeReadCoils = 0x01"
definition FuncCodeReadDiscreteInputs :: byte where "FuncCodeReadDiscreteInputs = 0x02"
definition FuncCodeReadHoldingRegisters :: byte where "FuncCodeReadHoldingRegisters = 0x03"
definition FuncCodeReadInputRegisters :: byte where "FuncCodeReadInputRegisters = 0x04"
definition FuncCodeWriteSingleCoil :: byte where "FuncCodeWriteSingleCoil = 0x05"
definition FuncCodeWriteSingleRegister :: byte where "FuncCodeWriteSingleRegister = 0x06"
definition FuncCodeWriteMultipleCoils :: byte where "FuncCodeWriteMultipleCoils = 0x0F"
definition FuncCodeWriteMultipleRegisters :: byte where "FuncCodeWriteMultipleRegisters = 0x10"

section \<open>Errors\<close>

text \<open>
  Every \<^verbatim>\<open>error\<close> value the package returns, one constructor per message.
  \<open>ModbusError\<close> is the struct of that name (function code, exception code).
  A run-time panic of Go (index or slice bound out of range, send on a closed channel,
  nil dereference) is not an \<^verbatim>\<open>error\<close> value: it unwinds the caller, so it is a
  result of its own, \<open>Panics\<close>.
\<close>

datatype error =
    ConnClosed                        \<comment> \<open>error of the transport: use of a closed connection\<close>
  | FailedToConnect                   \<comment> \<open>"failed to connect: ..."\<close>
  | FailedToSendRequest               \<comment> \<open>"failed to send request: ..."\<close>
  | FailedToReadHeader                \<comment> \<open>"failed to read response header: ..."\<close>
  | TransactionIDMismatch uint16 uint16  \<comment> \<open>"transaction ID mismatch: expected, got"\<close>
  | FailedToReadData                  \<comment> \<open>"failed to read response data: ..."\<close>
  | ModbusError byte byte             \<comment> \<open>FunctionCode, ExceptionCode\<close>
  | InvalidQuantity uint16            \<comment> \<open>"invalid quantity: %d (must be ...)"\<close>
  | InvalidResponseLength             \<comment> \<open>"invalid response length"\<close>
  | ResponseLengthMismatch            \<comment> \<open>"response length mismatch"\<close>
  | InvalidResponse                   \<comment> \<open>"invalid response"\<close>
  | InvalidValuesType string          \<comment> \<open>"invalid values type for ..."\<close>
  | UnknownOperation string           \<comment> \<open>"unknown operation: ..."\<close>
  | InvalidByteOrder string           \<comment> \<open>"invalid byte order: ..."\<close>
  | TimeoutWaitingForConnection       \<comment> \<open>"timeout waiting for connection"\<close>
  | FailedToCreateConnection nat      \<comment> \<open>"failed to create connection %d: ..."\<close>

datatype 'a go = Returns 'a | Panics

section \<open>The transport\<close>

text \<open>
  The connection (\<^verbatim>\<open>net.Conn\<close>) is the transport collaborator: a reliable, ordered byte
  stream. Its state here is what the peer will deliver and a log of the calls made on it.

  \<^item> \<open>inbound\<close>: what the successive \<^verbatim>\<open>Read\<close> calls find: a segment of bytes that has
    arrived, or a failure (deadline expired, connection reset). An empty list is a
    stream with nothing more to come before the deadline.
  \<^item> \<^verbatim>\<open>Read(p)\<close> follows the contract of \<^verbatim>\<open>io.Reader\<close>: it copies at most
    \<^verbatim>\<open>len(p)\<close> bytes of what is available into the front of \<^verbatim>\<open>p\<close> and returns the
    count with a nil error; bytes of the segment that did not fit stay for the next call.
    A zero-length \<^verbatim>\<open>p\<close> returns at once with no error.
  \<^item> every call on a closed connection fails; \<^verbatim>\<open>Write\<close> also fails when the stream is
    broken (\<open>write_broken\<close>).
  \<^item> \<open>trace\<close> records the frames written, the sizes of the buffers read into and the
    closing, oldest first.
\<close>

datatype read_event = ReadFails | Segment "byte list"

datatype conn_call = Written "byte list" | ReadInto nat | Closed

record Conn =
  closed :: bool
  write_broken :: bool
  inbound :: "read_event list"
  trace :: "conn_call list"

definition SetDeadline :: "Conn \<Rightarrow> error option" where
  "SetDeadline conn = (if closed conn then Some ConnClosed else None)"

definition conn_Write :: "Conn \<Rightarrow> byte list \<Rightarrow> bool \<times> Conn" where
  "conn_Write conn bs =
     (if closed conn \<or> write_broken conn then (False, conn)
      else (True, conn\<lparr>trace := trace conn @ [Written bs]\<rparr>))"

text \<open>
  \<open>conn_Read conn n\<close> is \<^verbatim>\<open>conn.Read(p)\<close> for a fresh zeroed buffer \<^verbatim>\<open>p\<close> of length
  \<open>n\<close>: it returns the count (\<open>None\<close> for an error), the buffer afterwards and the
  connection.
\<close>

definition conn_Read :: "Conn \<Rightarrow> nat \<Rightarrow> nat option \<times> byte list \<times> Conn" where
  "conn_Read conn n =
     (let conn' = conn\<lparr>trace := trace conn @ [ReadInto n]\<rparr> in
      if closed conn then (None, replicate n 0, conn')
      else if n = 0 then (Some 0, [], conn')
      else case inbound conn of
             [] \<Rightarrow> (None, replicate n 0, conn')
           | ReadFails # rest \<Rightarrow> (None, replicate n 0, conn'\<lparr>inbound := rest\<rparr>)
           | Segment bs # rest \<Rightarrow>
               (let got = take n bs; left = drop n bs in
                (Some (length got), got @ replicate (n - length got) 0,
                 conn'\<lparr>inbound := (if left = [] then rest else Segment left # rest)\<rparr>)))"

definition conn_Close :: "Conn \<Rightarrow> Conn" where
  "conn_Close conn = conn\<lparr>closed := True, trace := trace conn @ [Closed]\<rparr>"

section \<open>Client and the exchange\<close>

text \<open>
  The mutex of \<^verbatim>\<open>Client\<close> serialises the exchanges on one connection; an exchange is
  one atomic step of the model. The timeout only sets the deadlines, whose expiry is
  an event of the transport.
\<close>

record Client =
  conn :: Conn
  timeout :: int
  transactionID :: uint16

definition mbap_header :: "uint16 \<Rightarrow> byte \<Rightarrow> byte list \<Rightarrow> byte list" where
  "mbap_header tid slaveID pdu =
     PutUint16 tid @ PutUint16 0 @ PutUint16 (of_nat (length pdu + 1)) @ [slaveID]"

text \<open>Lines 132-140 of sendRequest: the check for an exception response.\<close>

definition check_exception :: "byte list \<Rightarrow> error + byte list" where
  "check_exception data =
     (if length data \<ge> 2 \<and> data ! 0 \<ge> 0x80
      then Inl (ModbusError (data ! 0 AND 0x7F) (data ! 1))
      else Inr data)"

definition sendRequest :: "Client \<Rightarrow> byte \<Rightarrow> byte list \<Rightarrow> (error + byte list) \<times> Client" where
  "sendRequest c0 slaveID pdu =
     (let c = c0\<lparr>transactionID := transactionID c0 + 1\<rparr>;
          request = mbap_header (transactionID c) slaveID pdu @ pdu
      in case SetDeadline (conn c) of
           Some e \<Rightarrow> (Inl e, c)
         | None \<Rightarrow>
      (case conn_Write (conn c) request of
           (False, cn) \<Rightarrow> (Inl FailedToSendRequest, c\<lparr>conn := cn\<rparr>)
         | (True, cn) \<Rightarrow>
      (case SetDeadline cn of
           Some e \<Rightarrow> (Inl e, c\<lparr>conn := cn\<rparr>)
         | None \<Rightarrow>
      (case conn_Read cn 7 of
           (None, header, cn1) \<Rightarrow> (Inl FailedToReadHeader, c\<lparr>conn := cn1\<rparr>)
         | (Some _, header, cn1) \<Rightarrow>
      (let respTransactionID = Uint16 (header ! 0) (header ! 1) in
       if respTransactionID \<noteq> transactionID c
       then (Inl (TransactionIDMismatch (transactionID c) respTransactionID), c\<lparr>conn := cn1\<rparr>)
       else
      (let dataLength = Uint16 (header ! 4) (header ! 5) - 1 in
       case conn_Read cn1 (unat dataLength) of
           (None, data, cn2) \<Rightarrow> (Inl FailedToReadData, c\<lparr>conn := cn2\<rparr>)
         | (Some _, data, cn2) \<Rightarrow> (check_exception data, c\<lparr>conn := cn2\<rparr>)))))))"

section \<open>Read operations\<close>

text \<open>
  ReadHoldingRegisters and ReadInputRegisters have the same body but for the function
  code; \<open>read_registers\<close> is that body.
\<close>

definition read_pdu :: "byte \<Rightarrow> uint16 \<Rightarrow> uint16 \<Rightarrow> byte list" where
  "read_pdu fc address quantity = [fc] @ PutUint16 address @ PutUint16 quantity"

text \<open>
  The loop of lines 207-211: \<^verbatim>\<open>registers[i] = Uint16(response[2+i*2 : 4+i*2])\<close>.
  A slice beyond the response panics.
\<close>

fun decode_registers :: "byte list \<Rightarrow> nat list \<Rightarrow> uint16 list go" where
  "decode_registers response [] = Returns []"
| "decode_registers response (i # is) =
     (if 4 + i * 2 > length response then Panics
      else case decode_registers response is of
             Panics \<Rightarrow> Panics
           | Returns rs \<Rightarrow> Returns (Uint16 (response ! (2 + i * 2)) (response ! (3 + i * 2)) # rs))"

definition read_registers ::
  "byte \<Rightarrow> Client \<Rightarrow> byte \<Rightarrow> uint16 \<Rightarrow> uint16 \<Rightarrow> (error + uint16 list) go \<times> Client" where
  "read_registers fc c slaveID address quantity =
     (if quantity = 0 \<or> quantity > 125 then (Returns (Inl (InvalidQuantity quantity)), c)
      else case sendRequest c slaveID (read_pdu fc address quantity) of
             (Inl e, c') \<Rightarrow> (Returns (Inl e), c')
           | (Inr response, c') \<Rightarrow>
               if length response < 2 then (Returns (Inl InvalidResponseLength), c')
               else
                 (let byteCount = response ! 1; expectedLength = quantity * 2 in
                  if byteCount \<noteq> ucast expectedLength \<or> length response \<noteq> unat (2 + byteCount)
                  then (Returns (Inl ResponseLengthMismatch), c')
                  else case decode_registers response [0..<unat quantity] of
                         Panics \<Rightarrow> (Panics, c')
                       | Returns registers \<Rightarrow> (Returns (Inr registers), c')))"

definition ReadHoldingRegisters ::
  "Client \<Rightarrow> byte \<Rightarrow> uint16 \<Rightarrow> uint16 \<Rightarrow> (error + uint16 list) go \<times> Client" where
  "ReadHoldingRegisters = read_registers FuncCodeReadHoldingRegisters"

definition ReadInputRegisters ::
  "Client \<Rightarrow> byte \<Rightarrow> uint16 \<Rightarrow> uint16 \<Rightarrow> (error + uint16 list) go \<times> Client" where
  "ReadInputRegisters = read_registers FuncCodeReadInputRegisters"

text \<open>
  The loop of lines 169-175 of ReadCoils:
  \<^verbatim>\<open>coils[i] = (response[2+i/8] & (1 << (i%8))) != 0\<close>; an index beyond the response
  panics.
\<close>

fun decode_coils :: "byte list \<Rightarrow> nat list \<Rightarrow> bool list go" where
  "decode_coils response [] = Returns []"
| "decode_coils response (i # is) =
     (if 2 + i div 8 \<ge> length response then Panics
      else case decode_coils response is of
             Panics \<Rightarrow> Panics
           | Returns bs \<Rightarrow>
               Returns (((response ! (2 + i div 8)) AND (push_bit (i mod 8) 1) \<noteq> 0) # bs))"

definition ReadCoils ::
  "Client \<Rightarrow> byte \<Rightarrow> uint16 \<Rightarrow> uint16 \<Rightarrow> (error + bool list) go \<times> Client" where
  "ReadCoils c slaveID address quantity =
     (if quantity = 0 \<or> quantity > 2000 then (Returns (Inl (InvalidQuantity quantity)), c)
      else case sendRequest c slaveID (read_pdu FuncCodeReadCoils address quantity) of
             (Inl e, c') \<Rightarrow> (Returns (Inl e), c')
           | (Inr response, c') \<Rightarrow>
               if length response < 2 then (Returns (Inl InvalidResponseLength), c')
               else
                 (let byteCount = response ! 1 in
                  if length response \<noteq> unat (2 + byteCount)
                  then (Returns (Inl ResponseLengthMismatch), c')
                  else case decode_coils response [0..<unat quantity] of
                         Panics \<Rightarrow> (Panics, c')
                       | Returns coils \<Rightarrow> (Returns (Inr coils), c')))"

section \<open>Write operations\<close>

text \<open>The check of the echoed response, the same in the four write operations.\<close>

definition verify_echo :: "byte \<Rightarrow> byte list \<Rightarrow> error option" where
  "verify_echo fc response =
     (if length response \<noteq> 5 \<or> response ! 0 \<noteq> fc then Some InvalidResponse else None)"

definition WriteSingleCoil :: "Client \<Rightarrow> byte \<Rightarrow> uint16 \<Rightarrow> bool \<Rightarrow> error option \<times> Client" where
  "WriteSingleCoil c slaveID address val =
     (let pdu = [FuncCodeWriteSingleCoil] @ PutUint16 address
                @ (if val then PutUint16 0xFF00 else PutUint16 0x0000)
      in case sendRequest c slaveID pdu of
           (Inl e, c') \<Rightarrow> (Some e, c')
         | (Inr response, c') \<Rightarrow> (verify_echo FuncCodeWriteSingleCoil response, c'))"

definition WriteSingleRegister ::
  "Client \<Rightarrow> byte \<Rightarrow> uint16 \<Rightarrow> uint16 \<Rightarrow> error option \<times> Client" where
  "WriteSingleRegister c slaveID address val =
     (let pdu = [FuncCodeWriteSingleRegister] @ PutUint16 address @ PutUint16 val
      in case sendRequest c slaveID pdu of
           (Inl e, c') \<Rightarrow> (Some e, c')
         | (Inr response, c') \<Rightarrow> (verify_echo FuncCodeWriteSingleRegister response, c'))"

text \<open>
  \<^verbatim>\<open>pdu := make([]byte, 6+byteCount)\<close> with the first six bytes then filled in:
  function code, address, quantity, \<^verbatim>\<open>byte(byteCount)\<close>. The sum \<^verbatim>\<open>6+byteCount\<close> is
  computed in uint16.
\<close>

definition multi_pdu :: "byte \<Rightarrow> uint16 \<Rightarrow> uint16 \<Rightarrow> uint16 \<Rightarrow> byte list" where
  "multi_pdu fc address quantity byteCount =
     [fc] @ PutUint16 address @ PutUint16 quantity @ [ucast byteCount]
     @ replicate (unat (6 + byteCount) - 6) 0"

text \<open>
  The loop of lines 315-322: for each true value at index \<open>i\<close>,
  \<^verbatim>\<open>pdu[6+i/8] |= 1 << (i%8)\<close>; the index \<open>i\<close> is an \<^verbatim>\<open>int\<close> and runs over the whole
  slice; an index beyond the PDU panics.
\<close>

fun pack_coils :: "byte list \<Rightarrow> nat \<Rightarrow> bool list \<Rightarrow> byte list go" where
  "pack_coils pdu i [] = Returns pdu"
| "pack_coils pdu i (v # vs) =
     (if v then
        (if 6 + i div 8 \<ge> length pdu then Panics
         else pack_coils (pdu[6 + i div 8 := (pdu ! (6 + i div 8)) OR (push_bit (i mod 8) 1)])
                (Suc i) vs)
      else pack_coils pdu (Suc i) vs)"

definition WriteMultipleCoils ::
  "Client \<Rightarrow> byte \<Rightarrow> uint16 \<Rightarrow> bool list \<Rightarrow> error option go \<times> Client" where
  "WriteMultipleCoils c slaveID address values =
     (let quantity = (of_nat (length values) :: uint16) in
      if quantity = 0 \<or> quantity > 1968 then (Returns (Some (InvalidQuantity quantity)), c)
      else
        (let byteCount = (quantity + 7) div 8 in
         case pack_coils (multi_pdu FuncCodeWriteMultipleCoils address quantity byteCount) 0 values of
           Panics \<Rightarrow> (Panics, c)
         | Returns pdu \<Rightarrow>
             (case sendRequest c slaveID pdu of
                (Inl e, c') \<Rightarrow> (Returns (Some e), c')
              | (Inr response, c') \<Rightarrow>
                  (Returns (verify_echo FuncCodeWriteMultipleCoils response), c'))))"

text \<open>
  The loop of lines 353-356: \<^verbatim>\<open>PutUint16(pdu[6+i*2:8+i*2], value)\<close>; a slice beyond
  the PDU panics.
\<close>

fun put_registers :: "byte list \<Rightarrow> nat \<Rightarrow> uint16 list \<Rightarrow> byte list go" where
  "put_registers pdu i [] = Returns pdu"
| "put_registers pdu i (v # vs) =
     (if 8 + i * 2 > length pdu then Panics
      else put_registers (pdu[6 + i * 2 := PutUint16 v ! 0, 7 + i * 2 := PutUint16 v ! 1])
             (Suc i) vs)"

definition WriteMultipleRegisters ::
  "Client \<Rightarrow> byte \<Rightarrow> uint16 \<Rightarrow> uint16 list \<Rightarrow> error option go \<times> Client" where
  "WriteMultipleRegisters c slaveID address values =
     (let quantity = (of_nat (length values) :: uint16) in
      if quantity = 0 \<or> quantity > 123 then (Returns (Some (InvalidQuantity quantity)), c)
      else
        (let byteCount = quantity * 2 in
         case put_registers (multi_pdu FuncCodeWriteMultipleRegisters address quantity byteCount)
                0 values of
           Panics \<Rightarrow> (Panics, c)
         | Returns pdu \<Rightarrow>
             (case sendRequest c slaveID pdu of
                (Inl e, c') \<Rightarrow> (Returns (Some e), c')
              | (Inr response, c') \<Rightarrow>
                  (Returns (verify_echo FuncCodeWriteMultipleRegisters response), c'))))"

section \<open>Float helpers\<close>

text \<open>
  A \<^verbatim>\<open>float32\<close> is carried as its 32 bits: the helpers only reinterpret the bits
  (\<^verbatim>\<open>unsafe.Pointer\<close>), so the value of type \<open>uint32\<close> here is the bit pattern of the
  float.
\<close>

definition ReadFloat32 ::
  "Client \<Rightarrow> byte \<Rightarrow> uint16 \<Rightarrow> string \<Rightarrow> (error + uint32) go \<times> Client" where
  "ReadFloat32 c slaveID address byteOrder =
     (case ReadHoldingRegisters c slaveID address 2 of
        (Panics, c') \<Rightarrow> (Panics, c')
      | (Returns (Inl e), c') \<Rightarrow> (Returns (Inl e), c')
      | (Returns (Inr registers), c') \<Rightarrow>
          (if byteOrder = ''big'' then
             (if length registers < 2 then (Panics, c')
              else (Returns (Inr (push_bit 16 (ucast (registers ! 0)) OR ucast (registers ! 1))), c'))
           else if byteOrder = ''little'' then
             (if length registers < 2 then (Panics, c')
              else (Returns (Inr (push_bit 16 (ucast (registers ! 1)) OR ucast (registers ! 0))), c'))
           else (Returns (Inl (InvalidByteOrder byteOrder)), c')))"

definition WriteFloat32 ::
  "Client \<Rightarrow> byte \<Rightarrow> uint16 \<Rightarrow> uint32 \<Rightarrow> string \<Rightarrow> error option go \<times> Client" where
  "WriteFloat32 c slaveID address bits byteOrder =
     (if byteOrder = ''big'' then
        WriteMultipleRegisters c slaveID address [ucast (drop_bit 16 bits), ucast (bits AND 0xFFFF)]
      else if byteOrder = ''little'' then
        WriteMultipleRegisters c slaveID address [ucast (bits AND 0xFFFF), ucast (drop_bit 16 bits)]
      else (Returns (Some (InvalidByteOrder byteOrder)), c))"

section \<open>Batch execution\<close>

text \<open>
  \<^verbatim>\<open>interface{}\<close> values: nil, a \<^verbatim>\<open>[]bool\<close>, a \<^verbatim>\<open>[]uint16\<close>, or a value of any
  other dynamic type. A nil slice and an empty one are the same list.
\<close>

datatype any = NilValue | BoolSlice "bool list" | Uint16Slice "uint16 list" | OtherValue

record BatchOperation =
  Operation :: string
  SlaveID :: byte
  Address :: uint16
  Values :: any
  Quantity :: uint16

text \<open>The fields Operation, Values and Error of BatchResult.\<close>

record BatchResult =
  res_Operation :: string
  res_Values :: any
  res_Error :: "error option"

text \<open>The body of the loop of ExecuteBatch: the switch on the operation of one item.\<close>

definition batch_item :: "Client \<Rightarrow> BatchOperation \<Rightarrow> BatchResult go \<times> Client" where
  "batch_item c op =
     (let result = \<lparr>res_Operation = Operation op, res_Values = NilValue, res_Error = None\<rparr> in
      if Operation op = ''read_coils'' then
        (case ReadCoils c (SlaveID op) (Address op) (Quantity op) of
           (Panics, c') \<Rightarrow> (Panics, c')
         | (Returns (Inl err), c') \<Rightarrow>
             (Returns (result\<lparr>res_Values := BoolSlice [], res_Error := Some err\<rparr>), c')
         | (Returns (Inr vs), c') \<Rightarrow>
             (Returns (result\<lparr>res_Values := BoolSlice vs, res_Error := None\<rparr>), c'))
      else if Operation op = ''read_holding'' then
        (case ReadHoldingRegisters c (SlaveID op) (Address op) (Quantity op) of
           (Panics, c') \<Rightarrow> (Panics, c')
         | (Returns (Inl err), c') \<Rightarrow>
             (Returns (result\<lparr>res_Values := Uint16Slice [], res_Error := Some err\<rparr>), c')
         | (Returns (Inr vs), c') \<Rightarrow>
             (Returns (result\<lparr>res_Values := Uint16Slice vs, res_Error := None\<rparr>), c'))
      else if Operation op = ''read_input'' then
        (case ReadInputRegisters c (SlaveID op) (Address op) (Quantity op) of
           (Panics, c') \<Rightarrow> (Panics, c')
         | (Returns (Inl err), c') \<Rightarrow>
             (Returns (result\<lparr>res_Values := Uint16Slice [], res_Error := Some err\<rparr>), c')
         | (Returns (Inr vs), c') \<Rightarrow>
             (Returns (result\<lparr>res_Values := Uint16Slice vs, res_Error := None\<rparr>), c'))
      else if Operation op = ''write_coils'' then
        (case Values op of
           BoolSlice coils \<Rightarrow>
             (case WriteMultipleCoils c (SlaveID op) (Address op) coils of
                (Panics, c') \<Rightarrow> (Panics, c')
              | (Returns err, c') \<Rightarrow> (Returns (result\<lparr>res_Error := err\<rparr>), c'))
         | _ \<Rightarrow> (Returns (result\<lparr>res_Error := Some (InvalidValuesType ''write_coils'')\<rparr>), c))
      else if Operation op = ''write_registers'' then
        (case Values op of
           Uint16Slice registers \<Rightarrow>
             (case WriteMultipleRegisters c (SlaveID op) (Address op) registers of
                (Panics, c') \<Rightarrow> (Panics, c')
              | (Returns err, c') \<Rightarrow> (Returns (result\<lparr>res_Error := err\<rparr>), c'))
         | _ \<Rightarrow> (Returns (result\<lparr>res_Error := Some (InvalidValuesType ''write_registers'')\<rparr>), c))
      else (Returns (result\<lparr>res_Error := Some (UnknownOperation (Operation op))\<rparr>), c))"

text \<open>
  The loop over the operations. There is no \<^verbatim>\<open>recover\<close>: a panic in one item unwinds
  ExecuteBatch, and no result is returned.
\<close>

fun ExecuteBatch :: "Client \<Rightarrow> BatchOperation list \<Rightarrow> BatchResult list go \<times> Client" where
  "ExecuteBatch c [] = (Returns [], c)"
| "ExecuteBatch c (op # ops) =
     (case batch_item c op of
        (Panics, c') \<Rightarrow> (Panics, c')
      | (Returns r, c') \<Rightarrow>
          (case ExecuteBatch c' ops of
             (Panics, c'') \<Rightarrow> (Panics, c'')
           | (Returns rs, c'') \<Rightarrow> (Returns (r # rs), c'')))"

section \<open>Connection pool\<close>

text \<open>
  Clients are shared by pointer between the pool and its callers, so they live in a
  store: a reference is \<open>Some\<close> address, or \<open>None\<close> for the nil pointer. \<open>dials\<close> is what
  the successive \<^verbatim>\<open>net.DialTimeout\<close> calls will give: a connection, or a failure.
\<close>

type_synonym ref = "nat option"

record World =
  heap :: "nat \<Rightarrow> Client option"
  next_ref :: nat
  dials :: "Conn option list"

record ClientConfig =
  cfg_Address :: string
  cfg_Timeout :: int

definition second :: int where "second = 1000000000"

definition NewClient :: "World \<Rightarrow> ClientConfig \<Rightarrow> (error + ref) \<times> World" where
  "NewClient w config =
     (let t = (if cfg_Timeout config = 0 then 5 * second else cfg_Timeout config) in
      case dials w of
        [] \<Rightarrow> (Inl FailedToConnect, w)
      | None # ds \<Rightarrow> (Inl FailedToConnect, w\<lparr>dials := ds\<rparr>)
      | Some cn # ds \<Rightarrow>
          (Inr (Some (next_ref w)),
           w\<lparr>heap := (heap w)(next_ref w \<mapsto> \<lparr>conn = cn, timeout = t, transactionID = 0\<rparr>),
             next_ref := Suc (next_ref w), dials := ds\<rparr>))"

text \<open>\<^verbatim>\<open>Close\<close> of a client: the error of closing the connection; a nil client panics.\<close>

definition Client_Close :: "World \<Rightarrow> ref \<Rightarrow> error option go \<times> World" where
  "Client_Close w r =
     (case r of
        None \<Rightarrow> (Panics, w)
      | Some a \<Rightarrow>
          (case heap w a of
             None \<Rightarrow> (Panics, w)
           | Some c \<Rightarrow>
               (Returns (if closed (conn c) then Some ConnClosed else None),
                w\<lparr>heap := (heap w)(a \<mapsto> c\<lparr>conn := conn_Close (conn c)\<rparr>)\<rparr>)))"

text \<open>
  The buffered channel \<^verbatim>\<open>chan *Client\<close>: its buffer (oldest first), its capacity and
  whether it has been closed. Channel operations are atomic, so each is one step.
\<close>

record ConnectionPool =
  address :: string
  pool_timeout :: int
  pool :: "ref list"
  pool_cap :: nat
  pool_closed :: bool
  maxConn :: int

text \<open>
  \<^verbatim>\<open>Put\<close>: a non-blocking send, and \<^verbatim>\<open>client.Close()\<close> in the default branch. A send
  on a closed channel panics.
\<close>

definition Put :: "ConnectionPool \<Rightarrow> World \<Rightarrow> ref \<Rightarrow> unit go \<times> ConnectionPool \<times> World" where
  "Put p w client =
     (if pool_closed p then (Panics, p, w)
      else if length (pool p) < pool_cap p then (Returns (), p\<lparr>pool := pool p @ [client]\<rparr>, w)
      else case Client_Close w client of
             (Panics, w') \<Rightarrow> (Panics, p, w')
           | (Returns _, w') \<Rightarrow> (Returns (), p, w'))"

text \<open>
  \<^verbatim>\<open>Get\<close>: a receive that waits up to the timeout. A buffered client is received; a
  closed and drained channel gives the nil client with a nil error; an empty open
  channel, with no other goroutine sending meanwhile, runs into the timeout.
\<close>

definition Get :: "ConnectionPool \<Rightarrow> (error + ref) \<times> ConnectionPool" where
  "Get p =
     (case pool p of
        client # rest \<Rightarrow> (Inr client, p\<lparr>pool := rest\<rparr>)
      | [] \<Rightarrow> if pool_closed p then (Inr None, p) else (Inl TimeoutWaitingForConnection, p))"

text \<open>The loop of \<^verbatim>\<open>Close\<close>: receive every buffered client and close it.\<close>

fun drain :: "World \<Rightarrow> ref list \<Rightarrow> unit go \<times> ref list \<times> World" where
  "drain w [] = (Returns (), [], w)"
| "drain w (client # rest) =
     (case Client_Close w client of
        (Panics, w') \<Rightarrow> (Panics, rest, w')
      | (Returns _, w') \<Rightarrow> drain w' rest)"

definition pool_Close :: "ConnectionPool \<Rightarrow> World \<Rightarrow> unit go \<times> ConnectionPool \<times> World" where
  "pool_Close p w =
     (if pool_closed p then (Panics, p, w)
      else case drain w (pool p) of
             (r, rest, w') \<Rightarrow> (r, p\<lparr>pool := rest, pool_closed := True\<rparr>, w'))"

text \<open>
  The loop of NewConnectionPool that dials the connections, \<open>i\<close> the loop counter. The
  send \<^verbatim>\<open>pool.pool <- client\<close> never blocks: the channel has room for every client of
  the loop (lemma \<open>fill_pool_bounded\<close>).
\<close>

function fill_pool ::
  "ConnectionPool \<Rightarrow> World \<Rightarrow> int \<Rightarrow> int \<Rightarrow> (error + ConnectionPool) go \<times> World" where
  "fill_pool p w i maxConnections =
     (if i < maxConnections then
        (case NewClient w \<lparr>cfg_Address = address p, cfg_Timeout = pool_timeout p\<rparr> of
           (Inl err, w') \<Rightarrow>
             (case pool_Close p w' of
                (Panics, _, w'') \<Rightarrow> (Panics, w'')
              | (Returns _, _, w'') \<Rightarrow> (Returns (Inl (FailedToCreateConnection (nat i))), w''))
         | (Inr client, w') \<Rightarrow>
             fill_pool (p\<lparr>pool := pool p @ [client]\<rparr>) w' (i + 1) maxConnections)
      else (Returns (Inr p), w))"
  by pat_completeness auto
termination
  by (relation "measure (\<lambda>(p, w, i, m). nat (m - i))") auto

definition NewConnectionPool ::
  "World \<Rightarrow> string \<Rightarrow> int \<Rightarrow> int \<Rightarrow> (error + ConnectionPool) go \<times> World" where
  "NewConnectionPool w addr maxConnections0 timeout0 =
     (let maxConnections = (if maxConnections0 \<le> 0 then 10 else maxConnections0);
          t = (if timeout0 = 0 then 5 * second else timeout0);
          p = \<lparr>address = addr, pool_timeout = t, pool = [], pool_cap = nat maxConnections,
               pool_closed = False, maxConn = maxConnections\<rparr>
      in fill_pool p w 0 maxConnections)"

section \<open>Observations used by the properties\<close>

text \<open>The frames written to a connection so far, oldest first.\<close>

definition written :: "Conn \<Rightarrow> byte list list" where
  "written cn = concat (map (\<lambda>e. case e of Written bs \<Rightarrow> [bs] | _ \<Rightarrow> []) (trace cn))"

text \<open>
  The exported methods of \<^verbatim>\<open>*Client\<close> that exchange data, each with its arguments, and
  the client after a call.
\<close>

datatype call =
    CallReadCoils byte uint16 uint16
  | CallReadHoldingRegisters byte uint16 uint16
  | CallReadInputRegisters byte uint16 uint16
  | CallWriteSingleCoil byte uint16 bool
  | CallWriteSingleRegister byte uint16 uint16
  | CallWriteMultipleCoils byte uint16 "bool list"
  | CallWriteMultipleRegisters byte uint16 "uint16 list"
  | CallExecuteBatch "BatchOperation list"
  | CallReadFloat32 byte uint16 string
  | CallWriteFloat32 byte uint16 uint32 string

fun run_call :: "Client \<Rightarrow> call \<Rightarrow> Client" where
  "run_call c (CallReadCoils s a q) = snd (ReadCoils c s a q)"
| "run_call c (CallReadHoldingRegisters s a q) = snd (ReadHoldingRegisters c s a q)"
| "run_call c (CallReadInputRegisters s a q) = snd (ReadInputRegisters c s a q)"
| "run_call c (CallWriteSingleCoil s a v) = snd (WriteSingleCoil c s a v)"
| "run_call c (CallWriteSingleRegister s a v) = snd (WriteSingleRegister c s a v)"
| "run_call c (CallWriteMultipleCoils s a vs) = snd (WriteMultipleCoils c s a vs)"
| "run_call c (CallWriteMultipleRegisters s a vs) = snd (WriteMultipleRegisters c s a vs)"
| "run_call c (CallExecuteBatch ops) = snd (ExecuteBatch c ops)"
| "run_call c (CallReadFloat32 s a bo) = snd (ReadFloat32 c s a bo)"
| "run_call c (CallWriteFloat32 s a bits bo) = snd (WriteFloat32 c s a bits bo)"

text \<open>
  The calls on a pool, in the order the channel serialises them, and the pool and the
  store after each.
\<close>

datatype pool_call = CallGet | CallPut ref | CallClose

fun pool_step :: "ConnectionPool \<times> World \<Rightarrow> pool_call \<Rightarrow> ConnectionPool \<times> World" where
  "pool_step (p, w) CallGet = (snd (Get p), w)"
| "pool_step (p, w) (CallPut client) = snd (Put p w client)"
| "pool_step (p, w) CallClose = snd (pool_Close p w)"

text \<open>
  \<open>emits c c' F\<close>: between the client states \<open>c\<close> and \<open>c'\<close> only frames were written
  after those of \<open>c\<close>, each with a PDU (a byte after the seven of the header) whose
  function code is in \<open>F\<close>. \<open>client_codes\<close> are the function codes the operations use.
\<close>

definition emits :: "Client \<Rightarrow> Client \<Rightarrow> byte set \<Rightarrow> bool" where
  "emits c c' F = (\<exists>new. written (conn c') = written (conn c) @ new
                      \<and> (\<forall>f\<in>set new. 7 < length f \<and> f ! 7 \<in> F))"

definition client_codes :: "byte set" where
  "client_codes = {FuncCodeReadCoils, FuncCodeReadHoldingRegisters, FuncCodeReadInputRegisters,
     FuncCodeWriteSingleCoil, FuncCodeWriteSingleRegister, FuncCodeWriteMultipleCoils,
     FuncCodeWriteMultipleRegisters}"

text \<open>A healthy client: fresh counter, open connection, the given segments to come.\<close>

definition fresh_client :: "read_event list \<Rightarrow> Client" where
  "fresh_client evs =
     \<lparr>conn = \<lparr>closed = False, write_broken = False, inbound = evs, trace = []\<rparr>,
      timeout = 5 * second, transactionID = 0\<rparr>"

section \<open>Basic facts\<close>

lemmas FuncCode_defs =
  FuncCodeReadCoils_def FuncCodeReadDiscreteInputs_def FuncCodeReadHoldingRegisters_def
  FuncCodeReadInputRegisters_def FuncCodeWriteSingleCoil_def FuncCodeWriteSingleRegister_def
  FuncCodeWriteMultipleCoils_def FuncCodeWriteMultipleRegisters_def

lemma Uint16_PutUint16: "Uint16 (PutUint16 v ! 0) (PutUint16 v ! 1) = v"
  unfolding Uint16_def PutUint16_def
  apply simp
  apply (rule bit_word_eqI)
  apply (auto simp: bit_simps)
  done

lemma mbap_header_fields:
  "length (mbap_header tid u pdu) = 7"
  "Uint16 (mbap_header tid u pdu ! 0) (mbap_header tid u pdu ! 1) = tid"
  "Uint16 (mbap_header tid u pdu ! 2) (mbap_header tid u pdu ! 3) = 0"
  "Uint16 (mbap_header tid u pdu ! 4) (mbap_header tid u pdu ! 5) = of_nat (length pdu + 1)"
  "mbap_header tid u pdu ! 6 = u"
  using Uint16_PutUint16[of tid] Uint16_PutUint16[of 0] Uint16_PutUint16[of "of_nat (length pdu + 1)"]
  by (simp_all add: mbap_header_def PutUint16_def)

lemma written_conn_Read: "written (snd (snd (conn_Read cn n))) = written cn"
  by (simp add: conn_Read_def written_def Let_def split: list.splits read_event.splits)

lemma conn_Read_cases:
  obtains (err) buf cn' where "conn_Read cn n = (None, buf, cn')" "written cn' = written cn"
  | (ok) k buf cn' where "conn_Read cn n = (Some k, buf, cn')" "written cn' = written cn"
      "length buf = n"
proof -
  obtain r buf cn' where e: "conn_Read cn n = (r, buf, cn')"
    by (cases "conn_Read cn n") auto
  have w: "written cn' = written cn"
    using written_conn_Read[of cn n] e by simp
  show thesis
  proof (cases r)
    case None
    then show ?thesis using e w err by simp
  next
    case (Some k)
    have "length buf = n"
      using e Some
      by (auto simp: conn_Read_def Let_def split: if_splits list.splits read_event.splits)
    then show ?thesis using e w ok Some by simp
  qed
qed

text \<open>An exchange on a healthy connection writes exactly one frame: header, then PDU.\<close>

lemma sendRequest_written:
  assumes "\<not> closed (conn c)" "\<not> write_broken (conn c)"
  shows "written (conn (snd (sendRequest c s pdu)))
         = written (conn c) @ [mbap_header (transactionID c + 1) s pdu @ pdu]"
proof -
  let ?req = "mbap_header (transactionID c + 1) s pdu @ pdu"
  let ?cn = "(conn c)\<lparr>trace := trace (conn c) @ [Written ?req]\<rparr>"
  have w0: "written ?cn = written (conn c) @ [?req]"
    by (simp add: written_def)
  show ?thesis
  proof (cases rule: conn_Read_cases[of ?cn 7])
    case (err buf cn')
    then show ?thesis using assms w0
      by (simp add: sendRequest_def Let_def SetDeadline_def conn_Write_def)
  next
    case (ok k buf cn')
    note o1 = ok
    show ?thesis
    proof (cases rule: conn_Read_cases[of cn' "unat (Uint16 (buf ! 4) (buf ! 5) - 1)"])
      case (err buf2 cn2)
      then show ?thesis using assms w0 o1
        by (simp add: sendRequest_def Let_def SetDeadline_def conn_Write_def)
    next
      case (ok k2 buf2 cn2)
      then show ?thesis using assms w0 o1
        by (simp add: sendRequest_def Let_def SetDeadline_def conn_Write_def)
    qed
  qed
qed

text \<open>On a closed or broken connection nothing is written.\<close>

lemma sendRequest_unhealthy:
  assumes "closed (conn c) \<or> write_broken (conn c)"
  shows "conn (snd (sendRequest c s pdu)) = conn c"
  using assms by (auto simp: sendRequest_def Let_def SetDeadline_def conn_Write_def)

text \<open>
  The exchange against a peer that answers with a full header \<open>hdr\<close> and then the whole
  response PDU \<open>data\<close>, each in one segment.
\<close>

lemma sendRequest_script:
  assumes h: "\<not> closed (conn c)" "\<not> write_broken (conn c)"
    and i: "inbound (conn c) = Segment hdr # Segment data # rest"
    and l: "length hdr = 7" "0 < length data" "length data < 65536"
    and t: "Uint16 (hdr ! 0) (hdr ! 1) = transactionID c + 1"
    and d: "Uint16 (hdr ! 4) (hdr ! 5) = of_nat (length data) + 1"
  shows "sendRequest c s pdu =
    (check_exception data,
     c\<lparr>conn := (conn c)\<lparr>inbound := rest,
          trace := trace (conn c) @ [Written (mbap_header (transactionID c + 1) s pdu @ pdu),
                                     ReadInto 7, ReadInto (length data)]\<rparr>,
       transactionID := transactionID c + 1\<rparr>)"
proof -
  have u: "unat (of_nat (length data) :: uint16) = length data"
    using l by (simp add: unat_of_nat)
  show ?thesis
    using h i l t d u
    by (simp add: sendRequest_def Let_def SetDeadline_def conn_Write_def conn_Read_def)
qed

lemma conn_Read_trace: "trace (snd (snd (conn_Read cn n))) = trace cn @ [ReadInto n]"
  by (simp add: conn_Read_def Let_def split: list.splits read_event.splits)

lemma conn_Read_length: "conn_Read cn n = (Some k, buf, cn') \<Longrightarrow> length buf = n"
  by (auto simp: conn_Read_def Let_def split: if_splits list.splits read_event.splits)

lemma conn_Read_Segment:
  "\<not> closed cn \<Longrightarrow> inbound cn = Segment bs # rest \<Longrightarrow> length bs = n \<Longrightarrow> 0 < n \<Longrightarrow>
   conn_Read cn n = (Some n, bs, cn\<lparr>trace := trace cn @ [ReadInto n], inbound := rest\<rparr>)"
  by (simp add: conn_Read_def Let_def)

section \<open>The request frame\<close>

text \<open>
  Claim C1. The PDU of read-holding-registers with start address 0 and quantity 5 is
  03 00 00 00 05. On a client whose counter is 0 and whose connection is healthy, the
  call ReadHoldingRegisters(1, 0, 5) writes exactly one frame, the twelve bytes
  00 01 00 00 00 06 01 03 00 00 00 05. In general the header has seven bytes: the
  transaction id, the protocol id 0 and the length of the PDU plus one, each as a
  big-endian 16-bit field, then the unit address.
\<close>

theorem read_holding_request_frame:
  "read_pdu FuncCodeReadHoldingRegisters 0 5 = [0x03, 0x00, 0x00, 0x00, 0x05]
   \<and> (\<forall>c. transactionID c = 0 \<and> \<not> closed (conn c) \<and> \<not> write_broken (conn c) \<longrightarrow>
          written (conn (snd (ReadHoldingRegisters c 1 0 5)))
          = written (conn c)
            @ [[0x00, 0x01, 0x00, 0x00, 0x00, 0x06, 0x01, 0x03, 0x00, 0x00, 0x00, 0x05]])
   \<and> (\<forall>tid u pdu. let h = mbap_header tid u pdu in
          length h = 7 \<and> Uint16 (h ! 0) (h ! 1) = tid \<and> Uint16 (h ! 2) (h ! 3) = 0
          \<and> Uint16 (h ! 4) (h ! 5) = of_nat (length pdu + 1) \<and> h ! 6 = u)"
proof (intro conjI allI impI)
  show p: "read_pdu FuncCodeReadHoldingRegisters 0 5 = [0x03, 0x00, 0x00, 0x00, 0x05]"
    by (simp add: read_pdu_def FuncCode_defs PutUint16_def)
  show "let h = mbap_header tid u pdu in
          length h = 7 \<and> Uint16 (h ! 0) (h ! 1) = tid \<and> Uint16 (h ! 2) (h ! 3) = 0
          \<and> Uint16 (h ! 4) (h ! 5) = of_nat (length pdu + 1) \<and> h ! 6 = u" for tid u pdu
    unfolding Let_def using mbap_header_fields[of tid u pdu] by simp
  fix c :: Client
  assume a: "transactionID c = 0 \<and> \<not> closed (conn c) \<and> \<not> write_broken (conn c)"
  have f: "mbap_header 1 1 [0x03, 0x00, 0x00, 0x00, 0x05] @ [0x03, 0x00, 0x00, 0x00, 0x05]
           = [0x00, 0x01, 0x00, 0x00, 0x00, 0x06, 0x01, 0x03, 0x00, 0x00, 0x00, 0x05]"
    by (simp add: mbap_header_def PutUint16_def)
  have s: "snd (ReadHoldingRegisters c 1 0 5)
           = snd (sendRequest c 1 (read_pdu FuncCodeReadHoldingRegisters 0 5))"
    by (simp add: ReadHoldingRegisters_def read_registers_def Let_def
          split: prod.splits sum.splits go.splits)
  show "written (conn (snd (ReadHoldingRegisters c 1 0 5)))
          = written (conn c)
            @ [[0x00, 0x01, 0x00, 0x00, 0x00, 0x06, 0x01, 0x03, 0x00, 0x00, 0x00, 0x05]]"
    using sendRequest_written[of c 1 "read_pdu FuncCodeReadHoldingRegisters 0 5"] a f
    unfolding s p by simp
qed

theorem read_holding_request_frame_witness:
  "transactionID (fresh_client []) = 0 \<and> \<not> closed (conn (fresh_client []))
   \<and> \<not> write_broken (conn (fresh_client []))
   \<and> written (conn (snd (ReadHoldingRegisters (fresh_client []) 1 0 5)))
     = [[0x00, 0x01, 0x00, 0x00, 0x00, 0x06, 0x01, 0x03, 0x00, 0x00, 0x00, 0x05]]"
proof -
  have h: "transactionID (fresh_client []) = 0 \<and> \<not> closed (conn (fresh_client []))
        \<and> \<not> write_broken (conn (fresh_client []))"
    by (simp add: fresh_client_def)
  moreover have "written (conn (fresh_client [])) = []"
    by (simp add: fresh_client_def written_def)
  ultimately show ?thesis
    using read_holding_request_frame by simp
qed

section \<open>Short reads\<close>

text \<open>
  Claim C2. The exchange does not detect a short read: both reads ignore the byte
  count that \<^verbatim>\<open>Read\<close> returns. When the peer's four-byte response PDU 03 02 12 34
  arrives in part (only 03 02 is there at the read), ReadHoldingRegisters returns the
  register value 0 with no error. When only the first two bytes of the header are
  there at the read, the rest of the header buffer stays zero, and the exchange
  returns 65535 bytes of data with no error.
\<close>

theorem short_read_not_detected:
  "fst (ReadHoldingRegisters
          (fresh_client [Segment [0x00, 0x01, 0x00, 0x00, 0x00, 0x05, 0x01], Segment [0x03, 0x02],
                         Segment [0x12, 0x34]]) 1 0 1)
     = Returns (Inr [0])
   \<and> fst (sendRequest
          (fresh_client [Segment [0x00, 0x01],
                         Segment [0x00, 0x00, 0x00, 0x05, 0x01, 0x03, 0x02, 0x12, 0x34]])
          1 (read_pdu FuncCodeReadHoldingRegisters 0 1))
     = Inr ([0x00, 0x00, 0x00, 0x05, 0x01, 0x03, 0x02, 0x12, 0x34] @ replicate 65526 0)"
proof
  show "fst (ReadHoldingRegisters
          (fresh_client [Segment [0x00, 0x01, 0x00, 0x00, 0x00, 0x05, 0x01], Segment [0x03, 0x02],
                         Segment [0x12, 0x34]]) 1 0 1)
     = Returns (Inr [0])"
    by code_simp
  show "fst (sendRequest
          (fresh_client [Segment [0x00, 0x01],
                         Segment [0x00, 0x00, 0x00, 0x05, 0x01, 0x03, 0x02, 0x12, 0x34]])
          1 (read_pdu FuncCodeReadHoldingRegisters 0 1))
     = Inr ([0x00, 0x00, 0x00, 0x05, 0x01, 0x03, 0x02, 0x12, 0x34] @ replicate 65526 0)"
    by (simp add: sendRequest_def fresh_client_def Let_def SetDeadline_def conn_Write_def
          conn_Read_def Uint16_def check_exception_def unsigned_minus_1_eq_mask
          mask_eq_exp_minus_1)
qed

section \<open>A zero length field\<close>

text \<open>
  Claim C10. When the response header carries the transaction id of the request and a
  length field of 0, the exchange computes the size of the body as 0 - 1 in 16 bits,
  which is 65535, and reads into a buffer of 65535 bytes: the header is not rejected.
  The exchange then fails only if that read fails, and otherwise goes on with 65535
  bytes of data.
\<close>

theorem zero_length_reads_65535:
  assumes h: "\<not> closed (conn c)" "\<not> write_broken (conn c)"
    and i: "inbound (conn c) = Segment hdr # rest"
    and l: "length hdr = 7"
    and t: "Uint16 (hdr ! 0) (hdr ! 1) = transactionID c + 1"
    and d: "Uint16 (hdr ! 4) (hdr ! 5) = 0"
  shows "unat (Uint16 (hdr ! 4) (hdr ! 5) - 1) = 65535
    \<and> trace (conn (snd (sendRequest c s pdu)))
      = trace (conn c) @ [Written (mbap_header (transactionID c + 1) s pdu @ pdu),
                           ReadInto 7, ReadInto 65535]
    \<and> (fst (sendRequest c s pdu) = Inl FailedToReadData
        \<or> (\<exists>data. length data = 65535 \<and> fst (sendRequest c s pdu) = check_exception data))"
proof -
  let ?req = "mbap_header (transactionID c + 1) s pdu @ pdu"
  let ?cn0 = "(conn c)\<lparr>trace := trace (conn c) @ [Written ?req]\<rparr>"
  let ?cn1 = "?cn0\<lparr>trace := trace ?cn0 @ [ReadInto 7], inbound := rest\<rparr>"
  have r1: "conn_Read ?cn0 7 = (Some 7, hdr, ?cn1)"
    using h i l by (intro conn_Read_Segment) simp_all
  have dl: "unat (Uint16 (hdr ! 4) (hdr ! 5) - 1) = 65535"
    unfolding d by (simp add: unsigned_minus_1_eq_mask mask_eq_exp_minus_1)
  obtain r data cn2 where rd: "conn_Read ?cn1 65535 = (r, data, cn2)"
    by (cases "conn_Read ?cn1 65535") auto
  have tr: "trace cn2 = trace ?cn1 @ [ReadInto 65535]"
    using conn_Read_trace[of ?cn1 65535] rd by simp
  have len: "r \<noteq> None \<Longrightarrow> length data = 65535"
    using rd conn_Read_length by (cases r) auto
  have sr: "sendRequest c s pdu =
     (case r of None \<Rightarrow> Inl FailedToReadData | Some _ \<Rightarrow> check_exception data,
      c\<lparr>transactionID := transactionID c + 1, conn := cn2\<rparr>)"
    using h t r1 rd dl
    by (simp add: sendRequest_def Let_def SetDeadline_def conn_Write_def split: option.splits)
  show ?thesis
    using dl sr tr len by (cases r) auto
qed

theorem zero_length_reads_65535_witness:
  "trace (conn (snd (sendRequest
      (fresh_client [Segment [0x00, 0x01, 0x00, 0x00, 0x00, 0x00, 0x01]]) 1 [0x03, 0, 0, 0, 5])))
   = [Written [0x00, 0x01, 0x00, 0x00, 0x00, 0x06, 0x01, 0x03, 0, 0, 0, 5], ReadInto 7,
      ReadInto 65535]
   \<and> fst (sendRequest
      (fresh_client [Segment [0x00, 0x01, 0x00, 0x00, 0x00, 0x00, 0x01]]) 1 [0x03, 0, 0, 0, 5])
     = Inl FailedToReadData"
proof -
  let ?c = "fresh_client [Segment [0x00, 0x01, 0x00, 0x00, 0x00, 0x00, 0x01]]"
  have t: "trace (conn (snd (sendRequest ?c 1 [0x03, 0, 0, 0, 5])))
      = trace (conn ?c) @ [Written (mbap_header (transactionID ?c + 1) 1 [0x03, 0, 0, 0, 5]
                                    @ [0x03, 0, 0, 0, 5]), ReadInto 7, ReadInto 65535]"
    using zero_length_reads_65535[of ?c "[0x00, 0x01, 0x00, 0x00, 0x00, 0x00, 0x01]" "[]" 1
        "[0x03, 0, 0, 0, 5]"]
    by (simp add: fresh_client_def Uint16_def)
  have e: "fst (sendRequest ?c 1 [0x03, 0, 0, 0, 5]) = Inl FailedToReadData"
    by (simp add: sendRequest_def fresh_client_def Let_def SetDeadline_def conn_Write_def
          conn_Read_def Uint16_def check_exception_def unsigned_minus_1_eq_mask
          mask_eq_exp_minus_1)
  show ?thesis
    using t e by (simp add: fresh_client_def mbap_header_def PutUint16_def)
qed

section \<open>Coil packing\<close>

lemma and_push_bit_1_byte: "((w :: byte) AND push_bit k 1 \<noteq> 0) = bit w k"
  using bit_iff_and_push_bit_not_eq_0[of w k] by simp

lemma and_exp_byte: "((w :: byte) AND 2 ^ k \<noteq> 0) = bit w k"
  using and_push_bit_1_byte[of w k] by simp

lemma bit_or_exp_byte:
  "k < 8 \<Longrightarrow> m < 8 \<Longrightarrow> bit ((w :: byte) OR 2 ^ m) k = (bit w k \<or> k = m)"
  by (auto simp: bit_simps)

lemma decode_coils_map:
  "\<forall>i\<in>set is. 2 + i div 8 < length r \<Longrightarrow>
   decode_coils r is = Returns (map (\<lambda>i. bit (r ! (2 + i div 8)) (i mod 8)) is)"
  by (induction "is") (simp_all add: and_exp_byte)

lemma bit_index_eq: "k < 8 \<Longrightarrow> (j = 6 + i div 8 \<and> k = i mod 8) = (6 \<le> j \<and> 8 * (j - 6) + k = (i::nat))"
  by auto

lemma pack_coils_bits:
  "6 + (i + length vs + 7) div 8 \<le> length pdu \<Longrightarrow>
   \<exists>pdu'. pack_coils pdu i vs = Returns pdu' \<and> length pdu' = length pdu \<and>
     (\<forall>j<length pdu. \<forall>k<8. bit (pdu' ! j) k =
        (bit (pdu ! j) k \<or>
         (6 \<le> j \<and> i \<le> 8 * (j - 6) + k \<and> 8 * (j - 6) + k < i + length vs
          \<and> vs ! (8 * (j - 6) + k - i))))"
proof (induction vs arbitrary: pdu i)
  case Nil
  then show ?case by auto
next
  case (Cons v vs)
  let ?b = "6 + i div 8"
  let ?pdu1 = "if v then pdu[?b := (pdu ! ?b) OR (push_bit (i mod 8) 1)] else pdu"
  have inr: "?b < length pdu" using Cons.prems by simp
  have len1: "length ?pdu1 = length pdu" by simp
  have pre: "6 + (Suc i + length vs + 7) div 8 \<le> length ?pdu1"
    using Cons.prems by simp
  from Cons.IH[OF pre] obtain pdu' where
    r: "pack_coils ?pdu1 (Suc i) vs = Returns pdu'" and
    l: "length pdu' = length pdu" and
    b: "\<forall>j<length pdu. \<forall>k<8. bit (pdu' ! j) k =
        (bit (?pdu1 ! j) k \<or>
         (6 \<le> j \<and> Suc i \<le> 8 * (j - 6) + k \<and> 8 * (j - 6) + k < Suc i + length vs
          \<and> vs ! (8 * (j - 6) + k - Suc i)))"
    unfolding len1 by blast
  have step: "pack_coils pdu i (v # vs) = Returns pdu'"
    using r inr by (simp split: if_splits)
  have b1: "bit (?pdu1 ! j) k = (bit (pdu ! j) k \<or> (v \<and> 6 \<le> j \<and> 8 * (j - 6) + k = i))"
    if "j < length pdu" "k < 8" for j k
  proof (cases v)
    case False then show ?thesis by simp
  next
    case True
    show ?thesis
    proof (cases "j = ?b")
      case e: True
      have "bit (?pdu1 ! j) k = (bit (pdu ! j) k \<or> k = i mod 8)"
        using True e inr that by (simp add: bit_or_exp_byte)
      moreover have "(k = i mod 8) = (6 \<le> j \<and> 8 * (j - 6) + k = i)"
      proof -
        have "i = 8 * (i div 8) + i mod 8" by simp
        moreover have "i mod 8 < 8" by simp
        ultimately show ?thesis using e that(2) by (metis add_diff_cancel_left' add_left_cancel le_add1)
      qed
      ultimately show ?thesis using True by simp
    next
      case ne: False
      have "\<not> (6 \<le> j \<and> 8 * (j - 6) + k = i)"
      proof
        assume a: "6 \<le> j \<and> 8 * (j - 6) + k = i"
        then have "i div 8 = j - 6" using that(2) by auto
        then show False using a ne by simp
      qed
      then show ?thesis using True ne by auto
    qed
  qed
  have "bit (pdu' ! j) k =
        (bit (pdu ! j) k \<or>
         (6 \<le> j \<and> i \<le> 8 * (j - 6) + k \<and> 8 * (j - 6) + k < i + length (v # vs)
          \<and> (v # vs) ! (8 * (j - 6) + k - i)))"
    if jk: "j < length pdu" "k < 8" for j k
  proof -
    let ?p = "8 * (j - 6) + k"
    have "bit (pdu' ! j) k = (bit (pdu ! j) k \<or> (v \<and> 6 \<le> j \<and> ?p = i) \<or>
         (6 \<le> j \<and> Suc i \<le> ?p \<and> ?p < Suc i + length vs \<and> vs ! (?p - Suc i)))"
      using b jk b1[OF jk] by auto
    also have "\<dots> = (bit (pdu ! j) k \<or>
         (6 \<le> j \<and> i \<le> ?p \<and> ?p < i + length (v # vs) \<and> (v # vs) ! (?p - i)))"
    proof (cases "?p = i")
      case True then show ?thesis by auto
    next
      case False
      have "(v # vs) ! (?p - i) = vs ! (?p - Suc i)" if "i \<le> ?p"
      proof -
        have "?p - i = Suc (?p - Suc i)" using that False by simp
        then show ?thesis by simp
      qed
      then show ?thesis using False by auto
    qed
    finally show ?thesis .
  qed
  then show ?case using step l by auto
qed


lemma byte_eq_bits: "(\<And>k. k < 8 \<Longrightarrow> bit (a :: byte) k = bit b k) \<Longrightarrow> a = b"
  by (rule bit_word_eqI) simp

text \<open>
  Claim C6. The loop of WriteMultipleCoils packs a list of N booleans into the
  (N + 7) div 8 bytes that follow the six header bytes of the PDU: bit i of the list is
  bit (i mod 8) of byte (i div 8), least significant bit first, and the bits beyond N
  stay zero. The loop of ReadCoils, run over a response that carries these bytes after
  its two header bytes, gives back the original list, for every N from 0 on.
\<close>

theorem coil_pack_unpack_roundtrip:
  assumes hl: "length hdr = 6"
  shows "\<exists>bytes. pack_coils (hdr @ replicate ((length values + 7) div 8) 0) 0 values
                  = Returns (hdr @ bytes)
     \<and> length bytes = (length values + 7) div 8
     \<and> (\<forall>i < 8 * length bytes.
           bit (bytes ! (i div 8)) (i mod 8) = (i < length values \<and> values ! i))
     \<and> decode_coils (fc # bc # bytes) [0..<length values] = Returns values"
proof -
  let ?n = "length values"
  let ?m = "(?n + 7) div 8"
  let ?pdu = "hdr @ replicate ?m (0 :: byte)"
  have pre: "6 + (0 + ?n + 7) div 8 \<le> length ?pdu" using hl by simp
  from pack_coils_bits[OF pre] obtain pdu' where
    r: "pack_coils ?pdu 0 values = Returns pdu'" and
    l: "length pdu' = length ?pdu" and
    b: "\<forall>j<length ?pdu. \<forall>k<8. bit (pdu' ! j) k =
        (bit (?pdu ! j) k \<or>
         (6 \<le> j \<and> 0 \<le> 8 * (j - 6) + k \<and> 8 * (j - 6) + k < 0 + ?n
          \<and> values ! (8 * (j - 6) + k - 0)))"
    by blast
  define bytes where "bytes = drop 6 pdu'"
  have lb: "length bytes = ?m" using l hl by (simp add: bytes_def)
  have "take 6 pdu' = hdr"
  proof (rule nth_equalityI)
    show "length (take 6 pdu') = length hdr" using l hl by simp
    fix j assume "j < length (take 6 pdu')"
    then have j: "j < 6" by simp
    then have "bit (pdu' ! j) k = bit (hdr ! j) k" if "k < 8" for k
      using b hl that by (simp add: nth_append)
    then have "pdu' ! j = hdr ! j" by (rule byte_eq_bits)
    then show "take 6 pdu' ! j = hdr ! j" using j by simp
  qed
  then have split: "pdu' = hdr @ bytes"
    unfolding bytes_def by (metis append_take_drop_id)
  have bits: "bit (bytes ! (i div 8)) (i mod 8) = (i < ?n \<and> values ! i)" if "i < 8 * length bytes" for i
  proof -
    have j: "6 + i div 8 < length ?pdu" using that lb hl by simp
    have "bytes ! (i div 8) = pdu' ! (6 + i div 8)"
      using split hl by (simp add: nth_append)
    moreover have "?pdu ! (6 + i div 8) = 0"
      using j hl by (simp add: nth_append)
    ultimately show ?thesis
      using b[rule_format, OF j, of "i mod 8"] by simp
  qed
  have dec: "decode_coils (fc # bc # bytes) [0..<?n] = Returns values"
  proof -
    have inr: "\<forall>i\<in>set [0..<?n]. 2 + i div 8 < length (fc # bc # bytes)"
      using lb by auto
    have "map (\<lambda>i. bit ((fc # bc # bytes) ! (2 + i div 8)) (i mod 8)) [0..<?n] = values"
    proof (rule nth_equalityI)
      show "length (map (\<lambda>i. bit ((fc # bc # bytes) ! (2 + i div 8)) (i mod 8)) [0..<?n]) = ?n"
        by simp
      fix i assume "i < length (map (\<lambda>i. bit ((fc # bc # bytes) ! (2 + i div 8)) (i mod 8)) [0..<?n])"
      then have i: "i < ?n" by simp
      then have "i < 8 * length bytes" using lb by simp
      from bits[OF this] i
      show "map (\<lambda>i. bit ((fc # bc # bytes) ! (2 + i div 8)) (i mod 8)) [0..<?n] ! i = values ! i"
        by simp
    qed
    then show ?thesis using decode_coils_map[OF inr] by simp
  qed
  show ?thesis using r split lb bits dec by auto
qed

theorem coil_pack_unpack_roundtrip_witness:
  "pack_coils ([0x0F, 0, 0, 0, 3, 1] @ replicate ((length [True, False, True] + 7) div 8) 0) 0
      [True, False, True] = Returns ([0x0F, 0, 0, 0, 3, 1] @ [0x05])
   \<and> decode_coils (0x01 # 0x01 # [0x05]) [0..<length [True, False, True]]
       = Returns [True, False, True]"
proof -
  have p: "pack_coils ([0x0F, 0, 0, 0, 3, 1] @ replicate ((length [True, False, True] + 7) div 8) 0) 0
      [True, False, True] = Returns ([0x0F, 0, 0, 0, 3, 1] @ [0x05])"
    by code_simp
  from coil_pack_unpack_roundtrip[of "[0x0F, 0, 0, 0, 3, 1]" "[True, False, True]" "0x01" "0x01"]
  obtain bytes where
    "pack_coils ([0x0F, 0, 0, 0, 3, 1] @ replicate ((length [True, False, True] + 7) div 8) 0) 0
      [True, False, True] = Returns ([0x0F, 0, 0, 0, 3, 1] @ bytes)"
    "decode_coils (0x01 # 0x01 # bytes) [0..<length [True, False, True]] = Returns [True, False, True]"
    by auto
  then show ?thesis using p by simp
qed

section \<open>Quantities and the PDUs of the multiple writes\<close>

lemma unat_quantity: "unat (of_nat n :: uint16) = n mod 65536"
  by (simp add: unat_of_nat)

lemma quantity_zero: "((of_nat n :: uint16) = 0) = (n mod 65536 = 0)"
  using unat_quantity[of n] by (metis unat_eq_0)

lemma quantity_gt:
  "((of_nat n :: uint16) > 1968) = (n mod 65536 > 1968)"
  "((of_nat n :: uint16) > 123) = (n mod 65536 > 123)"
  by (simp_all add: word_less_nat_alt unat_quantity)

lemma coil_byteCount:
  assumes "n mod 65536 \<le> 1968"
  shows "unat (((of_nat n :: uint16) + 7) div 8) = (n mod 65536 + 7) div 8"
    and "unat (6 + ((of_nat n :: uint16) + 7) div 8) - 6 = (n mod 65536 + 7) div 8"
proof -
  let ?q = "of_nat n :: uint16"
  have a: "unat (?q + 7) = n mod 65536 + 7"
    using assms unat_quantity[of n] by (simp add: unat_word_ariths)
  show b: "unat ((?q + 7) div 8) = (n mod 65536 + 7) div 8"
    using a by (simp add: unat_div)
  have "unat (6 + (?q + 7) div 8) = 6 + (n mod 65536 + 7) div 8"
    using b assms by (simp add: unat_word_ariths)
  then show "unat (6 + (?q + 7) div 8) - 6 = (n mod 65536 + 7) div 8" by simp
qed

lemma reg_byteCount:
  assumes "n mod 65536 \<le> 123"
  shows "unat (6 + (of_nat n :: uint16) * 2) - 6 = 2 * (n mod 65536)"
proof -
  let ?q = "of_nat n :: uint16"
  have a: "unat (?q * 2) = 2 * (n mod 65536)"
    using assms unat_quantity[of n] by (simp add: unat_word_ariths)
  have "unat (6 + ?q * 2) = 6 + 2 * (n mod 65536)"
    using a assms by (simp add: unat_word_ariths)
  then show ?thesis by simp
qed

lemma pack_coils_preserves:
  "pack_coils pdu i vs = Returns pdu' \<Longrightarrow> length pdu' = length pdu \<and> (\<forall>j<6. pdu' ! j = pdu ! j)"
proof (induction vs arbitrary: pdu i)
  case Nil
  then show ?case by simp
next
  case (Cons v vs)
  show ?case
  proof (cases v)
    case True
    with Cons.prems have r: "pack_coils (pdu[6 + i div 8 := (pdu ! (6 + i div 8)) OR (push_bit (i mod 8) 1)]) (Suc i) vs = Returns pdu'"
      by (simp split: if_splits)
    from Cons.IH[OF r] show ?thesis by simp
  next
    case False
    with Cons.prems have "pack_coils pdu (Suc i) vs = Returns pdu'" by simp
    from Cons.IH[OF this] show ?thesis .
  qed
qed

lemma put_registers_preserves:
  "put_registers pdu i vs = Returns pdu' \<Longrightarrow> length pdu' = length pdu \<and> (\<forall>j<6. pdu' ! j = pdu ! j)"
proof (induction vs arbitrary: pdu i)
  case Nil
  then show ?case by simp
next
  case (Cons v vs)
  from Cons.prems have r: "put_registers (pdu[6 + i * 2 := PutUint16 v ! 0, 7 + i * 2 := PutUint16 v ! 1]) (Suc i) vs = Returns pdu'"
    by (simp split: if_splits)
  from Cons.IH[OF r] show ?case by simp
qed

lemma put_registers_returns:
  "6 + 2 * (i + length vs) \<le> length pdu \<Longrightarrow> \<exists>pdu'. put_registers pdu i vs = Returns pdu'"
proof (induction vs arbitrary: pdu i)
  case Nil
  then show ?case by simp
next
  case (Cons v vs)
  have "6 + 2 * (Suc i + length vs) \<le> length (pdu[6 + i * 2 := PutUint16 v ! 0, 7 + i * 2 := PutUint16 v ! 1])"
    using Cons.prems by simp
  from Cons.IH[OF this] show ?case using Cons.prems by simp
qed

lemma pack_coils_all_False: "pack_coils pdu i (replicate n False) = Returns pdu"
  by (induction n arbitrary: i) simp_all

text \<open>WriteMultipleCoils for a list of 1 to 1968 values: the request is built and sent.\<close>

lemma WriteMultipleCoils_in_range:
  assumes "0 < length vs" "length vs \<le> 1968"
  shows "\<exists>pdu. pack_coils (multi_pdu FuncCodeWriteMultipleCoils a (of_nat (length vs))
                       ((of_nat (length vs) + 7) div 8)) 0 vs = Returns pdu
     \<and> pdu ! 0 = FuncCodeWriteMultipleCoils \<and> 6 < length pdu
     \<and> WriteMultipleCoils c s a vs =
         (case sendRequest c s pdu of
            (Inl e, c') \<Rightarrow> (Returns (Some e), c')
          | (Inr r, c') \<Rightarrow> (Returns (verify_echo FuncCodeWriteMultipleCoils r), c'))"
proof -
  let ?n = "length vs"
  let ?q = "of_nat ?n :: uint16"
  have m: "?n mod 65536 = ?n" using assms by simp
  have ok: "\<not> (?q = 0 \<or> ?q > 1968)"
    using assms m by (simp add: quantity_zero quantity_gt)
  let ?pdu0 = "multi_pdu FuncCodeWriteMultipleCoils a ?q ((?q + 7) div 8)"
  have len: "length ?pdu0 = 6 + (?n + 7) div 8"
    using coil_byteCount(2)[of ?n] m assms by (simp add: multi_pdu_def PutUint16_def)
  then have "6 + (0 + ?n + 7) div 8 \<le> length ?pdu0" by simp
  from pack_coils_bits[OF this] obtain pdu where r: "pack_coils ?pdu0 0 vs = Returns pdu"
    by blast
  from pack_coils_preserves[OF r] have "pdu ! 0 = ?pdu0 ! 0" "length pdu = length ?pdu0" by auto
  moreover have "0 < (?n + 7) div 8" using assms(1) by (cases vs) simp_all
  ultimately have h: "pdu ! 0 = FuncCodeWriteMultipleCoils" "6 < length pdu"
    using len by (simp_all add: multi_pdu_def)
  have "WriteMultipleCoils c s a vs =
         (case sendRequest c s pdu of
            (Inl e, c') \<Rightarrow> (Returns (Some e), c')
          | (Inr r, c') \<Rightarrow> (Returns (verify_echo FuncCodeWriteMultipleCoils r), c'))"
    using ok r by (simp add: WriteMultipleCoils_def Let_def)
  then show ?thesis using r h by blast
qed

lemma WriteMultipleRegisters_in_range:
  assumes "0 < length vs" "length vs \<le> 123"
  shows "\<exists>pdu. put_registers (multi_pdu FuncCodeWriteMultipleRegisters a (of_nat (length vs))
                       (of_nat (length vs) * 2)) 0 vs = Returns pdu
     \<and> pdu ! 0 = FuncCodeWriteMultipleRegisters \<and> 6 < length pdu
     \<and> WriteMultipleRegisters c s a vs =
         (case sendRequest c s pdu of
            (Inl e, c') \<Rightarrow> (Returns (Some e), c')
          | (Inr r, c') \<Rightarrow> (Returns (verify_echo FuncCodeWriteMultipleRegisters r), c'))"
proof -
  let ?n = "length vs"
  let ?q = "of_nat ?n :: uint16"
  have m: "?n mod 65536 = ?n" using assms by simp
  have ok: "\<not> (?q = 0 \<or> ?q > 123)"
    using assms m by (simp add: quantity_zero quantity_gt)
  let ?pdu0 = "multi_pdu FuncCodeWriteMultipleRegisters a ?q (?q * 2)"
  have len: "length ?pdu0 = 6 + 2 * ?n"
    using reg_byteCount[of ?n] m assms by (simp add: multi_pdu_def PutUint16_def)
  then have "6 + 2 * (0 + ?n) \<le> length ?pdu0" by simp
  from put_registers_returns[OF this] obtain pdu where r: "put_registers ?pdu0 0 vs = Returns pdu"
    by blast
  from put_registers_preserves[OF r] have "pdu ! 0 = ?pdu0 ! 0" "length pdu = length ?pdu0" by auto
  then have h: "pdu ! 0 = FuncCodeWriteMultipleRegisters" "6 < length pdu"
    using len assms by (simp_all add: multi_pdu_def)
  have "WriteMultipleRegisters c s a vs =
         (case sendRequest c s pdu of
            (Inl e, c') \<Rightarrow> (Returns (Some e), c')
          | (Inr r, c') \<Rightarrow> (Returns (verify_echo FuncCodeWriteMultipleRegisters r), c'))"
    using ok r by (simp add: WriteMultipleRegisters_def Let_def)
  then show ?thesis using r h by blast
qed

section \<open>Exception responses\<close>

text \<open>
  Claim C7, counterexample. A response PDU that is the single byte 83 has its top bit
  set and is not decoded as an exception: the exchange returns it as data, and the
  operation rejects it by its length (ReadHoldingRegisters: invalid response length;
  WriteSingleRegister, for the byte 86: invalid response).
\<close>

theorem one_byte_exception_response_not_decoded:
  "fst (sendRequest (fresh_client [Segment [0x00, 0x01, 0x00, 0x00, 0x00, 0x02, 0x01],
                                   Segment [0x83]]) 1 [0x03, 0, 0, 0, 5])
     = Inr [0x83]
   \<and> fst (ReadHoldingRegisters (fresh_client [Segment [0x00, 0x01, 0x00, 0x00, 0x00, 0x02, 0x01],
                                   Segment [0x83]]) 1 0 5)
     = Returns (Inl InvalidResponseLength)
   \<and> fst (WriteSingleRegister (fresh_client [Segment [0x00, 0x01, 0x00, 0x00, 0x00, 0x02, 0x01],
                                   Segment [0x86]]) 1 0 1234)
     = Some InvalidResponse"
  by code_simp

text \<open>
  Claim C7, as amended. When the peer answers with a response PDU of at least two bytes
  whose first byte has the top bit set, the exchange returns the Modbus exception whose
  function code is the first byte with the top bit cleared and whose exception code is
  the second byte, and so does every operation: none returns typed data. A response of
  this kind that is a single byte is no exception for the exchange, and every operation
  rejects it as an invalid response, so it gives no typed data either. The bytes 83 02
  give function 03, exception 02.
\<close>

theorem exception_response_decoded:
  assumes h: "\<not> closed (conn c)" "\<not> write_broken (conn c)"
    and i: "inbound (conn c) = Segment hdr # Segment data # rest"
    and l: "length hdr = 7" "0 < length data" "length data < 65536"
    and t: "Uint16 (hdr ! 0) (hdr ! 1) = transactionID c + 1"
    and d: "Uint16 (hdr ! 4) (hdr ! 5) = of_nat (length data) + 1"
    and top: "0x80 \<le> data ! 0"
  shows "(2 \<le> length data \<longrightarrow>
            fst (sendRequest c s pdu) = Inl (ModbusError (data ! 0 AND 0x7F) (data ! 1)))
    \<and> (\<forall>a q. q \<noteq> 0 \<and> q \<le> 2000 \<longrightarrow> fst (ReadCoils c s a q) =
          Returns (Inl (if 2 \<le> length data then ModbusError (data ! 0 AND 0x7F) (data ! 1)
                        else InvalidResponseLength)))
    \<and> (\<forall>a q. q \<noteq> 0 \<and> q \<le> 125 \<longrightarrow> fst (ReadHoldingRegisters c s a q) =
          Returns (Inl (if 2 \<le> length data then ModbusError (data ! 0 AND 0x7F) (data ! 1)
                        else InvalidResponseLength)))
    \<and> (\<forall>a q. q \<noteq> 0 \<and> q \<le> 125 \<longrightarrow> fst (ReadInputRegisters c s a q) =
          Returns (Inl (if 2 \<le> length data then ModbusError (data ! 0 AND 0x7F) (data ! 1)
                        else InvalidResponseLength)))
    \<and> (\<forall>a v. fst (WriteSingleCoil c s a v) =
          Some (if 2 \<le> length data then ModbusError (data ! 0 AND 0x7F) (data ! 1)
                else InvalidResponse))
    \<and> (\<forall>a v. fst (WriteSingleRegister c s a v) =
          Some (if 2 \<le> length data then ModbusError (data ! 0 AND 0x7F) (data ! 1)
                else InvalidResponse))
    \<and> (\<forall>a vs. 0 < length vs \<and> length vs \<le> 1968 \<longrightarrow> fst (WriteMultipleCoils c s a vs) =
          Returns (Some (if 2 \<le> length data then ModbusError (data ! 0 AND 0x7F) (data ! 1)
                else InvalidResponse)))
    \<and> (\<forall>a vs. 0 < length vs \<and> length vs \<le> 123 \<longrightarrow> fst (WriteMultipleRegisters c s a vs) =
          Returns (Some (if 2 \<le> length data then ModbusError (data ! 0 AND 0x7F) (data ! 1)
                else InvalidResponse)))"
proof -
  note sr = sendRequest_script[OF h i l t d]
  have w: "\<not> (0x80 :: byte) \<le> y \<Longrightarrow> data ! 0 \<noteq> y" for y using top by auto
  have single: "(2 \<le> length data \<longrightarrow>
            fst (sendRequest c s pdu) = Inl (ModbusError (data ! 0 AND 0x7F) (data ! 1)))
    \<and> (\<forall>a q. q \<noteq> 0 \<and> q \<le> 2000 \<longrightarrow> fst (ReadCoils c s a q) =
          Returns (Inl (if 2 \<le> length data then ModbusError (data ! 0 AND 0x7F) (data ! 1)
                        else InvalidResponseLength)))
    \<and> (\<forall>a q. q \<noteq> 0 \<and> q \<le> 125 \<longrightarrow> fst (ReadHoldingRegisters c s a q) =
          Returns (Inl (if 2 \<le> length data then ModbusError (data ! 0 AND 0x7F) (data ! 1)
                        else InvalidResponseLength)))
    \<and> (\<forall>a q. q \<noteq> 0 \<and> q \<le> 125 \<longrightarrow> fst (ReadInputRegisters c s a q) =
          Returns (Inl (if 2 \<le> length data then ModbusError (data ! 0 AND 0x7F) (data ! 1)
                        else InvalidResponseLength)))
    \<and> (\<forall>a v. fst (WriteSingleCoil c s a v) =
          Some (if 2 \<le> length data then ModbusError (data ! 0 AND 0x7F) (data ! 1)
                else InvalidResponse))
    \<and> (\<forall>a v. fst (WriteSingleRegister c s a v) =
          Some (if 2 \<le> length data then ModbusError (data ! 0 AND 0x7F) (data ! 1)
                else InvalidResponse))"
    using top
    by (auto simp: sr check_exception_def ReadCoils_def ReadHoldingRegisters_def
        ReadInputRegisters_def read_registers_def WriteSingleCoil_def WriteSingleRegister_def
        verify_echo_def Let_def FuncCode_defs dest: w)
  have mc: "fst (WriteMultipleCoils c s a vs) =
          Returns (Some (if 2 \<le> length data then ModbusError (data ! 0 AND 0x7F) (data ! 1)
                else InvalidResponse))" if "0 < length vs \<and> length vs \<le> 1968" for a vs
  proof -
    from that WriteMultipleCoils_in_range[of vs a c s] obtain p where
      "WriteMultipleCoils c s a vs =
         (case sendRequest c s p of
            (Inl e, c') \<Rightarrow> (Returns (Some e), c')
          | (Inr r, c') \<Rightarrow> (Returns (verify_echo FuncCodeWriteMultipleCoils r), c'))"
      by blast
    then show ?thesis
      using top
      by (auto simp: sendRequest_script[OF h i l t d] check_exception_def verify_echo_def
          FuncCode_defs dest: w)
  qed
  have mr: "fst (WriteMultipleRegisters c s a vs) =
          Returns (Some (if 2 \<le> length data then ModbusError (data ! 0 AND 0x7F) (data ! 1)
                else InvalidResponse))" if "0 < length vs \<and> length vs \<le> 123" for a vs
  proof -
    from that WriteMultipleRegisters_in_range[of vs a c s] obtain p where
      "WriteMultipleRegisters c s a vs =
         (case sendRequest c s p of
            (Inl e, c') \<Rightarrow> (Returns (Some e), c')
          | (Inr r, c') \<Rightarrow> (Returns (verify_echo FuncCodeWriteMultipleRegisters r), c'))"
      by blast
    then show ?thesis
      using top
      by (auto simp: sendRequest_script[OF h i l t d] check_exception_def verify_echo_def
          FuncCode_defs dest: w)
  qed
  show ?thesis using single mc mr by blast
qed

theorem exception_response_decoded_witness:
  "fst (sendRequest (fresh_client [Segment [0x00, 0x01, 0x00, 0x00, 0x00, 0x03, 0x01],
                                   Segment [0x83, 0x02]]) 1 [0x03, 0, 0, 0, 5])
     = Inl (ModbusError 0x03 0x02)
   \<and> fst (ReadHoldingRegisters (fresh_client [Segment [0x00, 0x01, 0x00, 0x00, 0x00, 0x03, 0x01],
                                   Segment [0x83, 0x02]]) 1 0 5)
     = Returns (Inl (ModbusError 0x03 0x02))"
proof -
  let ?c = "fresh_client [Segment [0x00, 0x01, 0x00, 0x00, 0x00, 0x03, 0x01], Segment [0x83, 0x02]]"
  have "(2 \<le> length [0x83, 0x02 :: byte] \<longrightarrow>
            fst (sendRequest ?c 1 [0x03, 0, 0, 0, 5])
            = Inl (ModbusError ([0x83, 0x02] ! 0 AND 0x7F) ([0x83, 0x02] ! 1)))
    \<and> (\<forall>a q. q \<noteq> 0 \<and> q \<le> 125 \<longrightarrow> fst (ReadHoldingRegisters ?c 1 a q) =
          Returns (Inl (if 2 \<le> length [0x83, 0x02 :: byte]
                        then ModbusError ([0x83, 0x02] ! 0 AND 0x7F) ([0x83, 0x02] ! 1)
                        else InvalidResponseLength)))"
    using exception_response_decoded[of ?c "[0x00, 0x01, 0x00, 0x00, 0x00, 0x03, 0x01]" "[0x83, 0x02]" "[]" 1
        "[0x03, 0, 0, 0, 5]"]
    by (simp add: fresh_client_def Uint16_def)
  then have "fst (sendRequest ?c 1 [0x03, 0, 0, 0, 5]) = Inl (ModbusError 0x03 0x02)
     \<and> (\<forall>a q. q \<noteq> 0 \<and> q \<le> 125 \<longrightarrow> fst (ReadHoldingRegisters ?c 1 a q) =
          Returns (Inl (ModbusError 0x03 0x02)))"
    by simp
  then show ?thesis by simp
qed

section \<open>Echo of the write operations\<close>




section \<open>Function codes on the wire\<close>

lemma emits_refl: "emits c c F"
  by (simp add: emits_def)

lemma emits_trans: "emits c c' F \<Longrightarrow> emits c' c'' G \<Longrightarrow> emits c c'' (F \<union> G)"
  unfolding emits_def by (elim exE conjE, rule_tac x="new @ newa" in exI) auto

lemma emits_mono: "emits c c' F \<Longrightarrow> F \<subseteq> G \<Longrightarrow> emits c c' G"
  unfolding emits_def by blast

lemma emits_same: "emits c c' F \<Longrightarrow> emits c' c'' F \<Longrightarrow> emits c c'' F"
  using emits_trans[of c c' F c'' F] by simp

lemma sendRequest_emits:
  assumes "pdu \<noteq> []"
  shows "emits c (snd (sendRequest c s pdu)) {pdu ! 0}"
proof (cases "closed (conn c) \<or> write_broken (conn c)")
  case True
  then show ?thesis
    using sendRequest_unhealthy[of c s pdu] by (simp add: emits_def)
next
  case False
  have "(mbap_header (transactionID c + 1) s pdu @ pdu) ! 7 = pdu ! 0"
    using mbap_header_fields(1)[of "transactionID c + 1" s pdu] by (simp add: nth_append)
  moreover have "7 < length (mbap_header (transactionID c + 1) s pdu @ pdu)"
    using assms mbap_header_fields(1)[of "transactionID c + 1" s pdu] by (cases pdu) simp_all
  ultimately show ?thesis
    using False sendRequest_written[of c s pdu] by (simp add: emits_def)
qed

lemma read_registers_emits: "emits c (snd (read_registers fc c s a q)) {fc}"
proof (cases "q = 0 \<or> q > 125")
  case True
  then show ?thesis by (simp add: read_registers_def emits_refl)
next
  case False
  have "snd (read_registers fc c s a q) = snd (sendRequest c s (read_pdu fc a q))"
    using False
    by (simp add: read_registers_def Let_def split: prod.splits sum.splits go.splits)
  then show ?thesis
    using sendRequest_emits[of "read_pdu fc a q" c s] by (simp add: read_pdu_def)
qed

lemma ReadCoils_emits: "emits c (snd (ReadCoils c s a q)) {FuncCodeReadCoils}"
proof (cases "q = 0 \<or> q > 2000")
  case True
  then show ?thesis by (simp add: ReadCoils_def emits_refl)
next
  case False
  have "snd (ReadCoils c s a q) = snd (sendRequest c s (read_pdu FuncCodeReadCoils a q))"
    using False
    by (simp add: ReadCoils_def Let_def split: prod.splits sum.splits go.splits)
  then show ?thesis
    using sendRequest_emits[of "read_pdu FuncCodeReadCoils a q" c s] by (simp add: read_pdu_def)
qed

lemma WriteSingleCoil_emits: "emits c (snd (WriteSingleCoil c s a v)) {FuncCodeWriteSingleCoil}"
proof -
  let ?pdu = "[FuncCodeWriteSingleCoil] @ PutUint16 a
                @ (if v then PutUint16 0xFF00 else PutUint16 0x0000)"
  have "snd (WriteSingleCoil c s a v) = snd (sendRequest c s ?pdu)"
    by (simp add: WriteSingleCoil_def Let_def split: prod.splits sum.splits)
  then show ?thesis
    using sendRequest_emits[of ?pdu c s] by simp
qed

lemma WriteSingleRegister_emits:
  "emits c (snd (WriteSingleRegister c s a v)) {FuncCodeWriteSingleRegister}"
proof -
  let ?pdu = "[FuncCodeWriteSingleRegister] @ PutUint16 a @ PutUint16 v"
  have "snd (WriteSingleRegister c s a v) = snd (sendRequest c s ?pdu)"
    by (simp add: WriteSingleRegister_def Let_def split: prod.splits sum.splits)
  then show ?thesis
    using sendRequest_emits[of ?pdu c s] by simp
qed

lemma multi_pdu_head: "multi_pdu fc a q bc ! 0 = fc" "multi_pdu fc a q bc \<noteq> []"
  by (simp_all add: multi_pdu_def)

lemma WriteMultipleCoils_emits:
  "emits c (snd (WriteMultipleCoils c s a vs)) {FuncCodeWriteMultipleCoils}"
proof -
  let ?q = "of_nat (length vs) :: uint16"
  let ?pdu0 = "multi_pdu FuncCodeWriteMultipleCoils a ?q ((?q + 7) div 8)"
  show ?thesis
  proof (cases "?q = 0 \<or> ?q > 1968")
    case True
    then show ?thesis by (simp add: WriteMultipleCoils_def emits_refl)
  next
    case False
    show ?thesis
    proof (cases "pack_coils ?pdu0 0 vs")
      case Panics
      then show ?thesis using False by (simp add: WriteMultipleCoils_def Let_def emits_refl)
    next
      case (Returns pdu)
      from pack_coils_preserves[OF Returns] have "pdu ! 0 = FuncCodeWriteMultipleCoils" "pdu \<noteq> []"
        using multi_pdu_head[of FuncCodeWriteMultipleCoils a ?q "(?q + 7) div 8"] by auto
      moreover have "snd (WriteMultipleCoils c s a vs) = snd (sendRequest c s pdu)"
        using False Returns
        by (simp add: WriteMultipleCoils_def Let_def split: prod.splits sum.splits)
      ultimately show ?thesis using sendRequest_emits[of pdu c s] by simp
    qed
  qed
qed

lemma WriteMultipleRegisters_emits:
  "emits c (snd (WriteMultipleRegisters c s a vs)) {FuncCodeWriteMultipleRegisters}"
proof -
  let ?q = "of_nat (length vs) :: uint16"
  let ?pdu0 = "multi_pdu FuncCodeWriteMultipleRegisters a ?q (?q * 2)"
  show ?thesis
  proof (cases "?q = 0 \<or> ?q > 123")
    case True
    then show ?thesis by (simp add: WriteMultipleRegisters_def emits_refl)
  next
    case False
    show ?thesis
    proof (cases "put_registers ?pdu0 0 vs")
      case Panics
      then show ?thesis using False by (simp add: WriteMultipleRegisters_def Let_def emits_refl)
    next
      case (Returns pdu)
      from put_registers_preserves[OF Returns] have "pdu ! 0 = FuncCodeWriteMultipleRegisters" "pdu \<noteq> []"
        using multi_pdu_head[of FuncCodeWriteMultipleRegisters a ?q "?q * 2"] by auto
      moreover have "snd (WriteMultipleRegisters c s a vs) = snd (sendRequest c s pdu)"
        using False Returns
        by (simp add: WriteMultipleRegisters_def Let_def split: prod.splits sum.splits)
      ultimately show ?thesis using sendRequest_emits[of pdu c s] by simp
    qed
  qed
qed

lemma batch_item_emits: "emits c (snd (batch_item c op)) client_codes"
proof -
  have a: "emits c (snd (ReadCoils c (SlaveID op) (Address op) (Quantity op))) client_codes"
    using ReadCoils_emits by (rule emits_mono) (simp add: client_codes_def)
  have b: "emits c (snd (ReadHoldingRegisters c (SlaveID op) (Address op) (Quantity op))) client_codes"
    unfolding ReadHoldingRegisters_def
    using read_registers_emits by (rule emits_mono) (simp add: client_codes_def)
  have d: "emits c (snd (ReadInputRegisters c (SlaveID op) (Address op) (Quantity op))) client_codes"
    unfolding ReadInputRegisters_def
    using read_registers_emits by (rule emits_mono) (simp add: client_codes_def)
  have e: "emits c (snd (WriteMultipleCoils c (SlaveID op) (Address op) vs)) client_codes" for vs
    using WriteMultipleCoils_emits by (rule emits_mono) (simp add: client_codes_def)
  have f: "emits c (snd (WriteMultipleRegisters c (SlaveID op) (Address op) vs)) client_codes" for vs
    using WriteMultipleRegisters_emits by (rule emits_mono) (simp add: client_codes_def)
  have g: "emits c (snd (case x of (Panics, c') \<Rightarrow> (Panics, c')
              | (Returns (Inl err), c') \<Rightarrow> (Returns (k1 err), c')
              | (Returns (Inr vs), c') \<Rightarrow> (Returns (k2 vs), c'))) client_codes"
    if "emits c (snd x) client_codes" for x :: "(error + 'z) go \<times> Client" and k1 k2 :: "_ \<Rightarrow> BatchResult"
    using that by (auto split: prod.splits go.splits sum.splits)
  have g2: "emits c (snd (case x of (Panics, c') \<Rightarrow> (Panics, c')
              | (Returns err, c') \<Rightarrow> (Returns (k err), c'))) client_codes"
    if "emits c (snd x) client_codes" for x :: "error option go \<times> Client" and k :: "_ \<Rightarrow> BatchResult"
    using that by (auto split: prod.splits go.splits)
  consider (rc) "Operation op = ''read_coils''"
    | (rh) "Operation op \<noteq> ''read_coils''" "Operation op = ''read_holding''"
    | (ri) "Operation op \<noteq> ''read_coils''" "Operation op \<noteq> ''read_holding''"
        "Operation op = ''read_input''"
    | (wc) "Operation op \<noteq> ''read_coils''" "Operation op \<noteq> ''read_holding''"
        "Operation op \<noteq> ''read_input''" "Operation op = ''write_coils''"
    | (wr) "Operation op \<noteq> ''read_coils''" "Operation op \<noteq> ''read_holding''"
        "Operation op \<noteq> ''read_input''" "Operation op \<noteq> ''write_coils''"
        "Operation op = ''write_registers''"
    | (un) "Operation op \<noteq> ''read_coils''" "Operation op \<noteq> ''read_holding''"
        "Operation op \<noteq> ''read_input''" "Operation op \<noteq> ''write_coils''"
        "Operation op \<noteq> ''write_registers''"
    by blast
  then show ?thesis
  proof cases
    case rc
    then show ?thesis unfolding batch_item_def Let_def using g[OF a] by simp
  next
    case rh
    then show ?thesis unfolding batch_item_def Let_def using g[OF b] by simp
  next
    case ri
    then show ?thesis unfolding batch_item_def Let_def using g[OF d] by simp
  next
    case wc
    then show ?thesis unfolding batch_item_def Let_def using g2[OF e]
      by (cases "Values op") (simp_all add: emits_refl)
  next
    case wr
    then show ?thesis unfolding batch_item_def Let_def using g2[OF f]
      by (cases "Values op") (simp_all add: emits_refl)
  next
    case un
    then show ?thesis unfolding batch_item_def Let_def by (simp add: emits_refl)
  qed
qed

lemma ExecuteBatch_emits: "emits c (snd (ExecuteBatch c ops)) client_codes"
proof (induction ops arbitrary: c)
  case Nil
  then show ?case by (simp add: emits_refl)
next
  case (Cons op ops)
  obtain r c' where b: "batch_item c op = (r, c')" by (cases "batch_item c op") auto
  have e1: "emits c c' client_codes" using batch_item_emits[of c op] b by simp
  show ?case
  proof (cases r)
    case Panics
    then show ?thesis using b e1 by simp
  next
    case (Returns x)
    have "snd (ExecuteBatch c (op # ops)) = snd (ExecuteBatch c' ops)"
      using b Returns by (simp split: prod.splits go.splits)
    then show ?thesis using emits_same[OF e1 Cons.IH[of c']] by simp
  qed
qed

lemma ReadFloat32_emits: "emits c (snd (ReadFloat32 c s a bo)) client_codes"
proof -
  have "snd (ReadFloat32 c s a bo) = snd (ReadHoldingRegisters c s a 2)"
    by (simp add: ReadFloat32_def split: prod.splits go.splits sum.splits)
  then show ?thesis
    using emits_mono[OF read_registers_emits[of c FuncCodeReadHoldingRegisters s a 2], of client_codes]
    by (simp add: ReadHoldingRegisters_def client_codes_def)
qed

lemma WriteFloat32_emits: "emits c (snd (WriteFloat32 c s a bits bo)) client_codes"
proof -
  have "emits c (snd (WriteMultipleRegisters c s a vs)) client_codes" for vs
    using WriteMultipleRegisters_emits by (rule emits_mono) (simp add: client_codes_def)
  then show ?thesis by (simp add: WriteFloat32_def emits_refl)
qed

lemma run_call_emits: "emits c (run_call c call) client_codes"
proof (cases call)
  case (CallReadCoils s a q)
  then show ?thesis
    using emits_mono[OF ReadCoils_emits[of c s a q], of client_codes] by (simp add: client_codes_def)
next
  case (CallReadHoldingRegisters s a q)
  then show ?thesis
    using emits_mono[OF read_registers_emits[of c FuncCodeReadHoldingRegisters s a q], of client_codes]
    by (simp add: client_codes_def ReadHoldingRegisters_def)
next
  case (CallReadInputRegisters s a q)
  then show ?thesis
    using emits_mono[OF read_registers_emits[of c FuncCodeReadInputRegisters s a q], of client_codes]
    by (simp add: client_codes_def ReadInputRegisters_def)
next
  case (CallWriteSingleCoil s a v)
  then show ?thesis
    using emits_mono[OF WriteSingleCoil_emits[of c s a v], of client_codes]
    by (simp add: client_codes_def)
next
  case (CallWriteSingleRegister s a v)
  then show ?thesis
    using emits_mono[OF WriteSingleRegister_emits[of c s a v], of client_codes]
    by (simp add: client_codes_def)
next
  case (CallWriteMultipleCoils s a vs)
  then show ?thesis
    using emits_mono[OF WriteMultipleCoils_emits[of c s a vs], of client_codes]
    by (simp add: client_codes_def)
next
  case (CallWriteMultipleRegisters s a vs)
  then show ?thesis
    using emits_mono[OF WriteMultipleRegisters_emits[of c s a vs], of client_codes]
    by (simp add: client_codes_def)
next
  case (CallExecuteBatch ops)
  then show ?thesis using ExecuteBatch_emits[of c ops] by simp
next
  case (CallReadFloat32 s a bo)
  then show ?thesis using ReadFloat32_emits[of c s a bo] by simp
next
  case (CallWriteFloat32 s a bits bo)
  then show ?thesis using WriteFloat32_emits[of c s a bits bo] by simp
qed

text \<open>
  Claim C4. No exported operation of the client ever sends a request with the function
  code 02 of read-discrete-inputs: whatever the call and the state of the client, every
  frame it writes carries one of the codes 01, 03, 04, 05, 06, 0F, 10. The constant
  FuncCodeReadDiscreteInputs is declared and no operation uses it.
\<close>

theorem no_operation_sends_read_discrete_inputs:
  "\<exists>new. written (conn (run_call c call)) = written (conn c) @ new
     \<and> (\<forall>f\<in>set new. 7 < length f \<and> f ! 7 \<in> {0x01, 0x03, 0x04, 0x05, 0x06, 0x0F, 0x10}
                       \<and> f ! 7 \<noteq> FuncCodeReadDiscreteInputs)"
proof -
  from run_call_emits[of c call] obtain new where
    w: "written (conn (run_call c call)) = written (conn c) @ new" and
    f: "\<forall>f\<in>set new. 7 < length f \<and> f ! 7 \<in> client_codes"
    unfolding emits_def by blast
  have "x \<in> client_codes \<Longrightarrow> x \<in> {0x01, 0x03, 0x04, 0x05, 0x06, 0x0F, 0x10} \<and> x \<noteq> FuncCodeReadDiscreteInputs" for x
    by (auto simp: client_codes_def FuncCode_defs)
  with w f show ?thesis by blast
qed

theorem no_operation_sends_read_discrete_inputs_witness:
  "written (conn (run_call (fresh_client []) (CallReadCoils 1 0 1)))
     = [[0x00, 0x01, 0x00, 0x00, 0x00, 0x06, 0x01, 0x01, 0x00, 0x00, 0x00, 0x01]]
   \<and> [0x00, 0x01, 0x00, 0x00, 0x00, 0x06, 0x01, 0x01, 0x00, 0x00, 0x00, 0x01 :: byte] ! 7
       \<noteq> FuncCodeReadDiscreteInputs"
proof -
  let ?f = "[0x00, 0x01, 0x00, 0x00, 0x00, 0x06, 0x01, 0x01, 0x00, 0x00, 0x00, 0x01 :: byte]"
  have w: "written (conn (run_call (fresh_client []) (CallReadCoils 1 0 1))) = [?f]"
    by code_simp
  have w0: "written (conn (fresh_client [])) = []"
    by code_simp
  from no_operation_sends_read_discrete_inputs[of "fresh_client []" "CallReadCoils 1 0 1"]
  obtain new where
    n: "written (conn (run_call (fresh_client []) (CallReadCoils 1 0 1)))
        = written (conn (fresh_client [])) @ new"
    and f: "\<forall>f\<in>set new. 7 < length f \<and> f ! 7 \<in> {0x01, 0x03, 0x04, 0x05, 0x06, 0x0F, 0x10}
                       \<and> f ! 7 \<noteq> FuncCodeReadDiscreteInputs"
    by blast
  have "new = [?f]" using n w w0 by simp
  then have "?f ! 7 \<noteq> FuncCodeReadDiscreteInputs" using f by simp
  then show ?thesis using w by blast
qed

section \<open>The pool stays within its capacity\<close>

lemma Put_bounded:
  "length (pool p) \<le> pool_cap p \<Longrightarrow>
   length (pool (fst (snd (Put p w client)))) \<le> pool_cap p
   \<and> pool_cap (fst (snd (Put p w client))) = pool_cap p
   \<and> maxConn (fst (snd (Put p w client))) = maxConn p"
  by (auto simp: Put_def split: prod.splits go.splits)

lemma Get_bounded:
  "length (pool p) \<le> pool_cap p \<Longrightarrow>
   length (pool (snd (Get p))) \<le> pool_cap p
   \<and> pool_cap (snd (Get p)) = pool_cap p \<and> maxConn (snd (Get p)) = maxConn p"
  by (auto simp: Get_def split: list.splits)

lemma drain_shorter: "length (fst (snd (drain w cs))) \<le> length cs"
proof (induction cs arbitrary: w)
  case Nil
  then show ?case by simp
next
  case (Cons a cs)
  obtain r w' where c: "Client_Close w a = (r, w')" by (cases "Client_Close w a") auto
  show ?case
  proof (cases r)
    case Panics
    then show ?thesis using c by simp
  next
    case (Returns x)
    then show ?thesis using c Cons.IH[of w'] by simp
  qed
qed

lemma pool_Close_bounded:
  "length (pool p) \<le> pool_cap p \<Longrightarrow>
   length (pool (fst (snd (pool_Close p w)))) \<le> pool_cap p
   \<and> pool_cap (fst (snd (pool_Close p w))) = pool_cap p
   \<and> maxConn (fst (snd (pool_Close p w))) = maxConn p"
  using drain_shorter[of w "pool p"]
  by (auto simp: pool_Close_def split: prod.splits)

lemma pool_step_bounded:
  assumes "length (pool p) \<le> pool_cap p"
  shows "length (pool (fst (pool_step (p, w) call))) \<le> pool_cap p
   \<and> pool_cap (fst (pool_step (p, w) call)) = pool_cap p
   \<and> maxConn (fst (pool_step (p, w) call)) = maxConn p"
proof (cases call)
  case CallGet
  then show ?thesis using Get_bounded[OF assms] by simp
next
  case (CallPut client)
  then show ?thesis using Put_bounded[OF assms, of w client] by simp
next
  case CallClose
  then show ?thesis using pool_Close_bounded[OF assms, of w] by simp
qed

lemma pool_steps_bounded:
  "length (pool p) \<le> pool_cap p \<Longrightarrow>
   length (pool (fst (foldl pool_step (p, w) calls))) \<le> pool_cap p
   \<and> pool_cap (fst (foldl pool_step (p, w) calls)) = pool_cap p
   \<and> maxConn (fst (foldl pool_step (p, w) calls)) = maxConn p"
proof (induction calls arbitrary: p w)
  case Nil
  then show ?case by simp
next
  case (Cons call calls)
  obtain p' w' where s: "pool_step (p, w) call = (p', w')" by (cases "pool_step (p, w) call") auto
  from pool_step_bounded[OF Cons.prems, of w call] s
  have b: "length (pool p') \<le> pool_cap p'" "pool_cap p' = pool_cap p" "maxConn p' = maxConn p"
    by simp_all
  from Cons.IH[OF b(1), of w'] b s show ?case by simp
qed

lemma fill_pool_bounded:
  "fill_pool p w i m = (Returns (Inr p'), w') \<Longrightarrow> i \<le> m \<Longrightarrow>
   length (pool p) + nat (m - i) \<le> pool_cap p \<Longrightarrow>
   length (pool p') \<le> pool_cap p' \<and> pool_cap p' = pool_cap p \<and> maxConn p' = maxConn p
   \<and> \<not> pool_closed p' = (\<not> pool_closed p) \<and> length (pool p') = length (pool p) + nat (m - i)"
proof (induction p w i m rule: fill_pool.induct)
  case (1 p w i m)
  show ?case
  proof (cases "i < m")
    case False
    then show ?thesis using "1.prems" by (simp add: fill_pool.simps[of p w i m])
  next
    case True
    obtain r w1 where n: "NewClient w \<lparr>cfg_Address = address p, cfg_Timeout = pool_timeout p\<rparr> = (r, w1)"
      by (cases "NewClient w \<lparr>cfg_Address = address p, cfg_Timeout = pool_timeout p\<rparr>") auto
    show ?thesis
    proof (cases r)
      case (Inl e)
      then show ?thesis using "1.prems"(1) True n
        by (simp add: fill_pool.simps[of p w i m] split: prod.splits go.splits)
    next
      case (Inr client)
      let ?p1 = "p\<lparr>pool := pool p @ [client]\<rparr>"
      have rec: "fill_pool ?p1 w1 (i + 1) m = (Returns (Inr p'), w')"
        using "1.prems"(1) True n Inr by (simp add: fill_pool.simps[of p w i m])
      have pre: "length (pool ?p1) + nat (m - (i + 1)) \<le> pool_cap ?p1"
        using "1.prems"(3) True by simp
      from "1.IH"[OF True n[symmetric] Inr rec _ pre] True
      show ?thesis by simp
    qed
  qed
qed

lemma pool_of_two: "fst (NewConnectionPool
            \<lparr>heap = (\<lambda>_. None), next_ref = 0,
               dials = [Some (conn (fresh_client [])), Some (conn (fresh_client []))]\<rparr>
            ''192.168.1.100:502'' 2 0)
       = Returns (Inr \<lparr>address = ''192.168.1.100:502'', pool_timeout = 5000000000,
                        pool = [Some 0, Some 1], pool_cap = 2, pool_closed = False, maxConn = 2\<rparr>)"
  by code_simp

lemma pool_of_two_heap: "heap (snd (NewConnectionPool
            \<lparr>heap = (\<lambda>_. None), next_ref = 0,
               dials = [Some (conn (fresh_client [])), Some (conn (fresh_client []))]\<rparr>
            ''192.168.1.100:502'' 2 0)) 0 = Some (fresh_client [])"
  by code_simp

text \<open>
  Claim C8. Put on an open pool whose channel is full closes the client it was given
  and leaves the channel as it was. Put never makes the channel longer than its
  capacity, and after NewConnectionPool has succeeded the channel holds exactly the
  configured number of clients (10 when the number given is not positive) and never
  more, whatever Get, Put and Close calls follow, in whatever order.
\<close>

theorem release_at_capacity_closes:
  "(\<not> pool_closed p \<and> pool_cap p \<le> length (pool p) \<and> heap w a = Some cl \<longrightarrow>
      Put p w (Some a)
      = (Returns (), p, w\<lparr>heap := (heap w)(a \<mapsto> cl\<lparr>conn := conn_Close (conn cl)\<rparr>)\<rparr>))
   \<and> (length (pool p) \<le> pool_cap p \<longrightarrow>
        length (pool (fst (snd (Put p w r)))) \<le> pool_cap p
        \<and> pool_cap (fst (snd (Put p w r))) = pool_cap p)
   \<and> (NewConnectionPool w0 addr n t = (Returns (Inr p0), w1) \<longrightarrow>
        pool_cap p0 = nat (if n \<le> 0 then 10 else n) \<and> length (pool p0) = pool_cap p0
        \<and> (\<forall>calls. length (pool (fst (foldl pool_step (p0, w1) calls)))
                     \<le> nat (if n \<le> 0 then 10 else n)))"
proof (intro conjI impI)
  assume "\<not> pool_closed p \<and> pool_cap p \<le> length (pool p) \<and> heap w a = Some cl"
  then show "Put p w (Some a)
      = (Returns (), p, w\<lparr>heap := (heap w)(a \<mapsto> cl\<lparr>conn := conn_Close (conn cl)\<rparr>)\<rparr>)"
    by (simp add: Put_def Client_Close_def)
next
  assume "length (pool p) \<le> pool_cap p"
  from Put_bounded[OF this, of w r]
  show "length (pool (fst (snd (Put p w r)))) \<le> pool_cap p"
    and "pool_cap (fst (snd (Put p w r))) = pool_cap p" by simp_all
next
  assume a: "NewConnectionPool w0 addr n t = (Returns (Inr p0), w1)"
  let ?m = "if n \<le> 0 then 10 else n"
  let ?p = "\<lparr>address = addr, pool_timeout = (if t = 0 then 5 * second else t), pool = [],
            pool_cap = nat ?m, pool_closed = False, maxConn = ?m\<rparr>"
  have f: "fill_pool ?p w0 0 ?m = (Returns (Inr p0), w1)"
    using a by (simp add: NewConnectionPool_def Let_def)
  have "length (pool ?p) + nat (?m - 0) \<le> pool_cap ?p" by simp
  from fill_pool_bounded[OF f _ this]
  have b: "length (pool p0) \<le> pool_cap p0" "pool_cap p0 = nat ?m" "length (pool p0) = nat ?m"
    by (simp_all split: if_splits)
  show "pool_cap p0 = nat ?m" by (rule b(2))
  show "length (pool p0) = pool_cap p0" using b by simp
  show "\<forall>calls. length (pool (fst (foldl pool_step (p0, w1) calls))) \<le> nat ?m"
    using pool_steps_bounded[OF b(1), of w1] b(2) by simp
qed

theorem release_at_capacity_closes_witness:
  "fst (NewConnectionPool
            \<lparr>heap = (\<lambda>_. None), next_ref = 0,
               dials = [Some (conn (fresh_client [])), Some (conn (fresh_client []))]\<rparr>
            ''192.168.1.100:502'' 2 0)
     = Returns (Inr \<lparr>address = ''192.168.1.100:502'', pool_timeout = 5000000000,
                      pool = [Some 0, Some 1], pool_cap = 2, pool_closed = False, maxConn = 2\<rparr>)
   \<and> fst (snd (Put \<lparr>address = ''192.168.1.100:502'', pool_timeout = 5000000000,
                      pool = [Some 0, Some 1], pool_cap = 2, pool_closed = False, maxConn = 2\<rparr>
          (snd (NewConnectionPool
            \<lparr>heap = (\<lambda>_. None), next_ref = 0,
               dials = [Some (conn (fresh_client [])), Some (conn (fresh_client []))]\<rparr>
            ''192.168.1.100:502'' 2 0)) (Some 0)))
     = \<lparr>address = ''192.168.1.100:502'', pool_timeout = 5000000000,
                      pool = [Some 0, Some 1], pool_cap = 2, pool_closed = False, maxConn = 2\<rparr>
   \<and> heap (snd (snd (Put \<lparr>address = ''192.168.1.100:502'', pool_timeout = 5000000000,
                      pool = [Some 0, Some 1], pool_cap = 2, pool_closed = False, maxConn = 2\<rparr>
          (snd (NewConnectionPool
            \<lparr>heap = (\<lambda>_. None), next_ref = 0,
               dials = [Some (conn (fresh_client [])), Some (conn (fresh_client []))]\<rparr>
            ''192.168.1.100:502'' 2 0)) (Some 0)))) 0
     = Some ((fresh_client [])\<lparr>conn := conn_Close (conn (fresh_client []))\<rparr>)
   \<and> length (pool (fst (foldl pool_step
        (\<lparr>address = ''192.168.1.100:502'', pool_timeout = 5000000000,
                      pool = [Some 0, Some 1], pool_cap = 2, pool_closed = False, maxConn = 2\<rparr>,
         snd (NewConnectionPool
            \<lparr>heap = (\<lambda>_. None), next_ref = 0,
               dials = [Some (conn (fresh_client [])), Some (conn (fresh_client []))]\<rparr>
            ''192.168.1.100:502'' 2 0))
        [CallGet, CallPut (Some 0), CallPut (Some 0)]))) \<le> 2"
proof -
  let ?w0 = "\<lparr>heap = (\<lambda>_. None), next_ref = 0,
               dials = [Some (conn (fresh_client [])), Some (conn (fresh_client []))]\<rparr>"
  let ?NC = "NewConnectionPool ?w0 ''192.168.1.100:502'' 2 0"
  let ?P = "\<lparr>address = ''192.168.1.100:502'', pool_timeout = 5000000000,
                      pool = [Some 0, Some 1], pool_cap = 2, pool_closed = False, maxConn = 2\<rparr>"
  have e1: "fst ?NC = Returns (Inr ?P)" by (rule pool_of_two)
  then have nc: "?NC = (Returns (Inr ?P), snd ?NC)" by (metis prod.collapse)
  have e2: "heap (snd ?NC) 0 = Some (fresh_client [])" by (rule pool_of_two_heap)
  note t = release_at_capacity_closes[where p = ?P and w = "snd ?NC" and a = 0 and cl = "fresh_client []"
      and ?w0.0 = ?w0 and addr = "''192.168.1.100:502''" and n = 2 and t = 0 and ?p0.0 = ?P
      and ?w1.0 = "snd ?NC"]
  have h1: "\<not> pool_closed ?P \<and> pool_cap ?P \<le> length (pool ?P)
            \<and> heap (snd ?NC) 0 = Some (fresh_client [])"
    using e2 by simp
  have put: "Put ?P (snd ?NC) (Some 0)
      = (Returns (), ?P, (snd ?NC)\<lparr>heap := (heap (snd ?NC))(0 \<mapsto>
            (fresh_client [])\<lparr>conn := conn_Close (conn (fresh_client []))\<rparr>)\<rparr>)"
    using t[THEN conjunct1, THEN mp, OF h1] .
  have "length (pool (fst (foldl pool_step (?P, snd ?NC)
        [CallGet, CallPut (Some 0), CallPut (Some 0)]))) \<le> nat (if (2::int) \<le> 0 then 10 else 2)"
    using t[THEN conjunct2, THEN conjunct2, THEN mp, OF nc, THEN conjunct2, THEN conjunct2, THEN spec] .
  then have inv: "length (pool (fst (foldl pool_step (?P, snd ?NC)
        [CallGet, CallPut (Some 0), CallPut (Some 0)]))) \<le> 2"
    by simp
  have c2: "fst (snd (Put ?P (snd ?NC) (Some 0))) = ?P"
    by (subst put) simp
  have c3: "heap (snd (snd (Put ?P (snd ?NC) (Some 0)))) 0
      = Some ((fresh_client [])\<lparr>conn := conn_Close (conn (fresh_client []))\<rparr>)"
    by (subst put) simp
  show ?thesis
    by (rule conjI[OF e1 conjI[OF c2 conjI[OF c3 inv]]])
qed

section \<open>Quantity validation\<close>

text \<open>
  For quantities that fit 16 bits the validation is as the limits say: a read is
  rejected, before anything is sent, exactly when its quantity is 0 or above the limit
  (2000 coils, 125 registers), and a multiple write exactly when its list is empty or
  longer than the limit (1968 coils, 123 registers).
\<close>

lemma read_quantity_validation:
  "(q = 0 \<or> q > 2000 \<longrightarrow> ReadCoils c s a q = (Returns (Inl (InvalidQuantity q)), c))
   \<and> (q \<noteq> 0 \<and> q \<le> 2000 \<longrightarrow>
        snd (ReadCoils c s a q) = snd (sendRequest c s (read_pdu FuncCodeReadCoils a q)))
   \<and> (q = 0 \<or> q > 125 \<longrightarrow>
        ReadHoldingRegisters c s a q = (Returns (Inl (InvalidQuantity q)), c)
        \<and> ReadInputRegisters c s a q = (Returns (Inl (InvalidQuantity q)), c))
   \<and> (q \<noteq> 0 \<and> q \<le> 125 \<longrightarrow>
        snd (ReadHoldingRegisters c s a q)
          = snd (sendRequest c s (read_pdu FuncCodeReadHoldingRegisters a q))
        \<and> snd (ReadInputRegisters c s a q)
          = snd (sendRequest c s (read_pdu FuncCodeReadInputRegisters a q)))"
  by (auto simp: ReadCoils_def ReadHoldingRegisters_def ReadInputRegisters_def read_registers_def
      Let_def split: prod.splits sum.splits go.splits)

lemma write_quantity_validation:
  assumes "length bs < 65536" "length rs < 65536"
  shows "(length bs = 0 \<or> 1968 < length bs \<longrightarrow>
          WriteMultipleCoils c s a bs
          = (Returns (Some (InvalidQuantity (of_nat (length bs)))), c))
   \<and> (0 < length bs \<and> length bs \<le> 1968 \<longrightarrow>
        (\<exists>pdu. snd (WriteMultipleCoils c s a bs) = snd (sendRequest c s pdu)))
   \<and> (length rs = 0 \<or> 123 < length rs \<longrightarrow>
          WriteMultipleRegisters c s a rs
          = (Returns (Some (InvalidQuantity (of_nat (length rs)))), c))
   \<and> (0 < length rs \<and> length rs \<le> 123 \<longrightarrow>
        (\<exists>pdu. snd (WriteMultipleRegisters c s a rs) = snd (sendRequest c s pdu)))"
proof (intro conjI impI)
  assume "length bs = 0 \<or> 1968 < length bs"
  then have "(of_nat (length bs) :: uint16) = 0 \<or> (of_nat (length bs) :: uint16) > 1968"
    using assms(1) by (simp add: quantity_zero quantity_gt)
  then show "WriteMultipleCoils c s a bs
          = (Returns (Some (InvalidQuantity (of_nat (length bs)))), c)"
    by (simp add: WriteMultipleCoils_def Let_def)
next
  assume "0 < length bs \<and> length bs \<le> 1968"
  with WriteMultipleCoils_in_range[of bs a c s] obtain p where
    "WriteMultipleCoils c s a bs =
         (case sendRequest c s p of
            (Inl e, c') \<Rightarrow> (Returns (Some e), c')
          | (Inr r, c') \<Rightarrow> (Returns (verify_echo FuncCodeWriteMultipleCoils r), c'))"
    by blast
  then have "snd (WriteMultipleCoils c s a bs) = snd (sendRequest c s p)"
    by (simp split: prod.splits sum.splits)
  then show "\<exists>pdu. snd (WriteMultipleCoils c s a bs) = snd (sendRequest c s pdu)" by blast
next
  assume "length rs = 0 \<or> 123 < length rs"
  then have "(of_nat (length rs) :: uint16) = 0 \<or> (of_nat (length rs) :: uint16) > 123"
    using assms(2) by (simp add: quantity_zero quantity_gt)
  then show "WriteMultipleRegisters c s a rs
          = (Returns (Some (InvalidQuantity (of_nat (length rs)))), c)"
    by (simp add: WriteMultipleRegisters_def Let_def)
next
  assume "0 < length rs \<and> length rs \<le> 123"
  with WriteMultipleRegisters_in_range[of rs a c s] obtain p where
    "WriteMultipleRegisters c s a rs =
         (case sendRequest c s p of
            (Inl e, c') \<Rightarrow> (Returns (Some e), c')
          | (Inr r, c') \<Rightarrow> (Returns (verify_echo FuncCodeWriteMultipleRegisters r), c'))"
    by blast
  then have "snd (WriteMultipleRegisters c s a rs) = snd (sendRequest c s p)"
    by (simp split: prod.splits sum.splits)
  then show "\<exists>pdu. snd (WriteMultipleRegisters c s a rs) = snd (sendRequest c s pdu)" by blast
qed

text \<open>
  Claim C5. The multiple writes take the quantity as \<^verbatim>\<open>uint16(len(values))\<close> before
  they check it, so a list of 65537 coils has the quantity 1 and is not rejected:
  WriteMultipleCoils(1, 0, values) with 65537 false values sends a request to write one
  coil (and here fails later, reading the response header), where the limit of 1968
  asks for an invalid-quantity error before any I/O.
\<close>

theorem long_coil_list_passes_validation:
  "fst (WriteMultipleCoils (fresh_client []) 1 0 (replicate 65537 False))
     = Returns (Some FailedToReadHeader)
   \<and> written (conn (snd (WriteMultipleCoils (fresh_client []) 1 0 (replicate 65537 False))))
     = [[0x00, 0x01, 0x00, 0x00, 0x00, 0x08, 0x01, 0x0F, 0x00, 0x00, 0x00, 0x01, 0x01, 0x00]]"
proof -
  have q: "(of_nat (length (replicate 65537 False)) :: uint16) = 1" by simp
  have m: "multi_pdu FuncCodeWriteMultipleCoils 0 1 1
           = [0x0F, 0x00, 0x00, 0x00, 0x01, 0x01, 0x00]"
    by code_simp
  have w: "WriteMultipleCoils (fresh_client []) 1 0 (replicate 65537 False)
     = (case sendRequest (fresh_client []) 1 [0x0F, 0x00, 0x00, 0x00, 0x01, 0x01, 0x00] of
          (Inl e, c') \<Rightarrow> (Returns (Some e), c')
        | (Inr r, c') \<Rightarrow> (Returns (verify_echo FuncCodeWriteMultipleCoils r), c'))"
    unfolding WriteMultipleCoils_def Let_def q
    by (simp add: m pack_coils_all_False)
  have s: "sendRequest (fresh_client []) 1 [0x0F, 0x00, 0x00, 0x00, 0x01, 0x01, 0x00]
     = (Inl FailedToReadHeader,
        \<lparr>conn = \<lparr>closed = False, write_broken = False, inbound = [],
           trace = [Written [0x00, 0x01, 0x00, 0x00, 0x00, 0x08, 0x01, 0x0F, 0x00, 0x00, 0x00, 0x01, 0x01, 0x00],
                    ReadInto 7]\<rparr>, timeout = 5 * second, transactionID = 1\<rparr>)"
    by code_simp
  show ?thesis unfolding w s by (simp add: written_def)
qed

section \<open>Batch execution and panics\<close>

text \<open>
  When ExecuteBatch returns, it returns one outcome per item, in the order of the
  items, each with the operation name of its item; an unknown operation name is an
  error of that item only.
\<close>

lemma ExecuteBatch_returns:
  "ExecuteBatch c ops = (Returns rs, c') \<Longrightarrow>
   length rs = length ops \<and> map res_Operation rs = map Operation ops"
proof (induction ops arbitrary: c rs c')
  case Nil
  then show ?case by simp
next
  case (Cons op ops)
  obtain r c1 where b: "batch_item c op = (r, c1)" by (cases "batch_item c op") auto
  obtain r2 c2 where e: "ExecuteBatch c1 ops = (r2, c2)" by (cases "ExecuteBatch c1 ops") auto
  from Cons.prems b e obtain x xs where
    x: "r = Returns x" "r2 = Returns xs" "rs = x # xs"
    by (cases r; cases r2) auto
  have "res_Operation x = Operation op"
    using b x(1)
    by (auto simp: batch_item_def Let_def split: if_splits prod.splits go.splits sum.splits any.splits)
  moreover from Cons.IH[of c1 xs c2] e x have "length xs = length ops \<and> map res_Operation xs = map Operation ops"
    by simp
  ultimately show ?case using x by simp
qed

lemma batch_item_invalid:
  "Operation op \<notin> {''read_coils'', ''read_holding'', ''read_input'', ''write_coils'',
                     ''write_registers''} \<Longrightarrow>
   batch_item c op = (Returns \<lparr>res_Operation = Operation op, res_Values = NilValue,
                               res_Error = Some (UnknownOperation (Operation op))\<rparr>, c)"
  by (simp add: batch_item_def)

text \<open>
  Claim C9. A panic in one item ends the whole batch. ReadCoils checks the byte count
  of the response against the length of the response only, not against the quantity:
  when the peer answers a read of 16 coils with one data byte (01 01 FF), the loop
  indexes beyond the response and panics. ExecuteBatch has no recover, returns no
  outcomes, and the second item is never executed.
\<close>

theorem short_coil_response_aborts_batch:
  "ExecuteBatch (fresh_client [Segment [0x00, 0x01, 0x00, 0x00, 0x00, 0x04, 0x01],
                               Segment [0x01, 0x01, 0xFF]])
     [\<lparr>Operation = ''read_coils'', SlaveID = 1, Address = 0, Values = NilValue, Quantity = 16\<rparr>,
      \<lparr>Operation = ''read_holding'', SlaveID = 1, Address = 0, Values = NilValue, Quantity = 1\<rparr>]
   = (Panics,
      \<lparr>conn = \<lparr>closed = False, write_broken = False, inbound = [],
         trace = [Written [0x00, 0x01, 0x00, 0x00, 0x00, 0x06, 0x01, 0x01, 0x00, 0x00, 0x00, 0x10],
                  ReadInto 7, ReadInto 3]\<rparr>, timeout = 5 * second, transactionID = 1\<rparr>)"
  by code_simp

end
